theory Spec2Isabelle
  imports Main "HOL-Library.Monad_Syntax"
begin

section \<open>Tensors and the framework primitives the notebook calls\<close>

text \<open>
  The notebook \<^verbatim>\<open>01_Gated-PixelCNN_MNIST.ipynb\<close> is written against the Gluon API of
  MXNet. Its own code is the three classes \<^verbatim>\<open>VStack\<close>, \<^verbatim>\<open>HStack\<close>, \<^verbatim>\<open>GatedLayer\<close>, the
  \<^verbatim>\<open>Sequential\<close> network, the training loss and the image-completion loop. The operators
  of the framework that this code calls (\<^verbatim>\<open>Convolution\<close>, \<^verbatim>\<open>slice_like\<close>, \<^verbatim>\<open>split\<close>,
  \<^verbatim>\<open>concat\<close>, \<^verbatim>\<open>zeros\<close>, broadcasting arithmetic, \<^verbatim>\<open>sum\<close>) are modelled below from their
  documented behaviour on arrays in the layout \<^verbatim>\<open>NCHW\<close>, the only layout the notebook uses.

  An NDArray of rank four is a shape together with its elements, read by index. Only the
  elements inside the shape are meaningful. A raised \<^verbatim>\<open>MXNetError\<close> or \<^verbatim>\<open>IndexError\<close> is
  the result \<open>None\<close>.

  The scalars are kept abstract: any type with \<open>0\<close>, \<open>+\<close> and \<open>*\<close> will do, and the
  scalar functions of the namespace \<^verbatim>\<open>F\<close> (sigmoid, tanh, the named activations) are fields
  of a record that every forward pass receives, as \<^verbatim>\<open>hybrid_forward(self, F, x)\<close> does.
\<close>

record 'a ndarray =
  dim_n :: nat
  dim_c :: nat
  dim_h :: nat
  dim_w :: nat
  elem :: "nat \<Rightarrow> nat \<Rightarrow> nat \<Rightarrow> nat \<Rightarrow> 'a"

record 'a ndarray1 =
  len :: nat
  elem1 :: "nat \<Rightarrow> 'a"

record 'a framework =
  F_Activation :: "string \<Rightarrow> ('a \<Rightarrow> 'a) option"
  F_sigmoid :: "'a \<Rightarrow> 'a"
  F_tanh :: "'a \<Rightarrow> 'a"

definition shape :: "'a ndarray \<Rightarrow> nat \<times> nat \<times> nat \<times> nat" where
  "shape x = (dim_n x, dim_c x, dim_h x, dim_w x)"

definition in_range :: "'a ndarray \<Rightarrow> nat \<Rightarrow> nat \<Rightarrow> nat \<Rightarrow> nat \<Rightarrow> bool" where
  "in_range x n c i j \<longleftrightarrow> n < dim_n x \<and> c < dim_c x \<and> i < dim_h x \<and> j < dim_w x"

text \<open>Summation of \<open>f 0, ..., f (n - 1)\<close>, in this order.\<close>

primrec sum_upt :: "(nat \<Rightarrow> 'a::{zero,plus}) \<Rightarrow> nat \<Rightarrow> 'a" where
  "sum_upt f 0 = 0"
| "sum_upt f (Suc n) = sum_upt f n + f n"

text \<open>Elementwise application of a scalar function (\<^verbatim>\<open>F.sigmoid\<close>, \<^verbatim>\<open>F.tanh\<close>, \<^verbatim>\<open>F.Activation\<close>).\<close>

definition tmap :: "('a \<Rightarrow> 'b) \<Rightarrow> 'a ndarray \<Rightarrow> 'b ndarray" where
  "tmap f x = \<lparr>dim_n = dim_n x, dim_c = dim_c x, dim_h = dim_h x, dim_w = dim_w x,
               elem = (\<lambda>n c i j. f (elem x n c i j))\<rparr>"

text \<open>
  Broadcasting of one axis: two extents are compatible when they are equal or one of them
  is 1; an axis of extent 1 is read at index 0 whatever the index of the result.
\<close>

definition bdim :: "nat \<Rightarrow> nat \<Rightarrow> nat option" where
  "bdim l r = (if l = r then Some l else if l = 1 then Some r else if r = 1 then Some l else None)"

definition bidx :: "nat \<Rightarrow> nat \<Rightarrow> nat" where
  "bidx d k = (if d = 1 then 0 else k)"

text \<open>
  \<^verbatim>\<open>a + b\<close>, \<^verbatim>\<open>a * b\<close> and \<^verbatim>\<open>a - b\<close> on NDArrays are \<^verbatim>\<open>broadcast_add\<close>, \<^verbatim>\<open>broadcast_mul\<close>
  and \<^verbatim>\<open>broadcast_sub\<close>.
\<close>

definition broadcast_op :: "('a \<Rightarrow> 'a \<Rightarrow> 'a) \<Rightarrow> 'a ndarray \<Rightarrow> 'a ndarray \<Rightarrow> 'a ndarray option" where
  "broadcast_op f a b =
     do { n \<leftarrow> bdim (dim_n a) (dim_n b);
          c \<leftarrow> bdim (dim_c a) (dim_c b);
          h \<leftarrow> bdim (dim_h a) (dim_h b);
          w \<leftarrow> bdim (dim_w a) (dim_w b);
          Some \<lparr>dim_n = n, dim_c = c, dim_h = h, dim_w = w,
                elem = (\<lambda>k l i j.
                  f (elem a (bidx (dim_n a) k) (bidx (dim_c a) l) (bidx (dim_h a) i) (bidx (dim_w a) j))
                    (elem b (bidx (dim_n b) k) (bidx (dim_c b) l) (bidx (dim_h b) i) (bidx (dim_w b) j)))\<rparr> }"

definition broadcast_add :: "'a::plus ndarray \<Rightarrow> 'a ndarray \<Rightarrow> 'a ndarray option" where
  "broadcast_add = broadcast_op (+)"

definition broadcast_mul :: "'a::times ndarray \<Rightarrow> 'a ndarray \<Rightarrow> 'a ndarray option" where
  "broadcast_mul = broadcast_op (*)"

definition broadcast_sub :: "'a::minus ndarray \<Rightarrow> 'a ndarray \<Rightarrow> 'a ndarray option" where
  "broadcast_sub = broadcast_op (-)"

text \<open>
  \<^verbatim>\<open>F.split(x, axis=1, num_outputs=2)\<close>: the channel count must be even; the first result
  holds the first half of the channels, the second result the second half.
\<close>

definition split :: "'a ndarray \<Rightarrow> ('a ndarray \<times> 'a ndarray) option" where
  "split x =
     (if dim_c x mod 2 = 0
      then Some (\<lparr>dim_n = dim_n x, dim_c = dim_c x div 2, dim_h = dim_h x, dim_w = dim_w x,
                  elem = elem x\<rparr>,
                 \<lparr>dim_n = dim_n x, dim_c = dim_c x div 2, dim_h = dim_h x, dim_w = dim_w x,
                  elem = (\<lambda>n c i j. elem x n (c + dim_c x div 2) i j)\<rparr>)
      else None)"

text \<open>\<^verbatim>\<open>concat(a, b, dim=1)\<close>: all extents but the channels must agree.\<close>

definition concat_nd :: "'a ndarray \<Rightarrow> 'a ndarray \<Rightarrow> 'a ndarray option" where
  "concat_nd a b =
     (if dim_n a = dim_n b \<and> dim_h a = dim_h b \<and> dim_w a = dim_w b
      then Some \<lparr>dim_n = dim_n a, dim_c = dim_c a + dim_c b, dim_h = dim_h a, dim_w = dim_w a,
                 elem = (\<lambda>n c i j. if c < dim_c a then elem a n c i j
                                    else elem b n (c - dim_c a) i j)\<rparr>
      else None)"

definition zeros :: "nat \<times> nat \<times> nat \<times> nat \<Rightarrow> 'a::zero ndarray" where
  "zeros s = \<lparr>dim_n = fst s, dim_c = fst (snd s), dim_h = fst (snd (snd s)),
              dim_w = snd (snd (snd s)), elem = (\<lambda>n c i j. 0)\<rparr>"

text \<open>
  \<^verbatim>\<open>F.slice_like(act, x, axes=[2,3])\<close>: on the axes 2 and 3 the array \<^verbatim>\<open>act\<close> is cut to the
  extents of \<^verbatim>\<open>x\<close>, keeping the elements of lowest index; it is an error for \<^verbatim>\<open>x\<close> to be
  larger than \<^verbatim>\<open>act\<close> there.
\<close>

definition slice_like :: "'a ndarray \<Rightarrow> 'b ndarray \<Rightarrow> 'a ndarray option" where
  "slice_like act x =
     (if dim_h x \<le> dim_h act \<and> dim_w x \<le> dim_w act
      then Some \<lparr>dim_n = dim_n act, dim_c = dim_c act, dim_h = dim_h x, dim_w = dim_w x,
                 elem = elem act\<rparr>
      else None)"

subsection \<open>The convolution operator\<close>

text \<open>
  The arguments a \<^verbatim>\<open>gluon.nn.Conv2D\<close> block stores at construction. The argument
  \<^verbatim>\<open>layout\<close> is always \<^verbatim>\<open>'NCHW'\<close> in the notebook and is left out; initialisers only choose
  the values of the parameters, which are inputs here.
\<close>

record conv2d =
  channels :: nat
  kernel_size :: "nat \<times> nat"
  strides :: "nat \<times> nat"
  padding :: "nat \<times> nat"
  dilation :: "nat \<times> nat"
  groups :: nat
  activation :: "string option"
  use_bias :: bool
  in_channels :: nat

definition Conv2D ::
  "nat \<Rightarrow> nat \<times> nat \<Rightarrow> nat \<times> nat \<Rightarrow> nat \<times> nat \<Rightarrow> nat \<times> nat \<Rightarrow> nat \<Rightarrow> string option \<Rightarrow> bool \<Rightarrow> nat
   \<Rightarrow> conv2d" where
  "Conv2D ch ks st pd dl g act ub inc =
     \<lparr>channels = ch, kernel_size = ks, strides = st, padding = pd, dilation = dl, groups = g,
      activation = act, use_bias = ub, in_channels = inc\<rparr>"

text \<open>The learned parameters of a convolution block: the weight and, with \<^verbatim>\<open>use_bias\<close>, the bias.\<close>

record 'a conv_params =
  weight :: "'a ndarray"
  bias :: "'a ndarray1 option"

text \<open>The input read through the zero padding: \<open>r\<close> and \<open>s\<close> are positions in the padded image.\<close>

definition padded :: "'a::zero ndarray \<Rightarrow> nat \<times> nat \<Rightarrow> nat \<Rightarrow> nat \<Rightarrow> nat \<Rightarrow> nat \<Rightarrow> 'a" where
  "padded x pd n c r s =
     (if fst pd \<le> r \<and> r - fst pd < dim_h x \<and> snd pd \<le> s \<and> s - snd pd < dim_w x
      then elem x n c (r - fst pd) (s - snd pd) else 0)"

text \<open>Extent of the output along one axis, or an error when the dilated kernel exceeds the padded input.\<close>

definition conv_out_dim :: "nat \<Rightarrow> nat \<Rightarrow> nat \<Rightarrow> nat \<Rightarrow> nat \<Rightarrow> nat option" where
  "conv_out_dim inp k s p d =
     (if 1 + (k - 1) * d \<le> inp + 2 * p then Some ((inp + 2 * p - (1 + (k - 1) * d)) div s + 1)
      else None)"

text \<open>
  What the operator checks before it computes, for an input of \<open>C\<close> channels: positive
  kernel, stride, dilation, filter and group counts; channel and filter counts divisible by
  the group count; a weight of shape (filters, \<open>C\<close> / groups, kernel height, kernel width);
  a bias with one element per filter exactly when the block was built with \<^verbatim>\<open>use_bias\<close>;
  and, when the block was built with a fixed \<^verbatim>\<open>in_channels\<close>, that many channels.
\<close>

definition conv_args_ok :: "conv2d \<Rightarrow> nat \<Rightarrow> 'a ndarray \<Rightarrow> 'a ndarray1 option \<Rightarrow> bool" where
  "conv_args_ok L C w b \<longleftrightarrow>
     0 < fst (kernel_size L) \<and> 0 < snd (kernel_size L) \<and>
     0 < fst (strides L) \<and> 0 < snd (strides L) \<and>
     0 < fst (dilation L) \<and> 0 < snd (dilation L) \<and>
     0 < channels L \<and> 0 < groups L \<and>
     C mod groups L = 0 \<and> channels L mod groups L = 0 \<and>
     (in_channels L = 0 \<or> in_channels L = C) \<and>
     shape w = (channels L, C div groups L, fst (kernel_size L), snd (kernel_size L)) \<and>
     (case b of None \<Rightarrow> \<not> use_bias L | Some v \<Rightarrow> use_bias L \<and> len v = channels L)"

definition conv_elem :: "conv2d \<Rightarrow> 'a::{zero,plus,times} ndarray \<Rightarrow> 'a ndarray \<Rightarrow> nat \<Rightarrow> nat \<Rightarrow> nat \<Rightarrow> nat \<Rightarrow> 'a" where
  "conv_elem L x w n oc i j =
     sum_upt (\<lambda>c. sum_upt (\<lambda>a. sum_upt (\<lambda>b.
         elem w oc c a b *
         padded x (padding L) n
           ((oc div (channels L div groups L)) * (dim_c x div groups L) + c)
           (i * fst (strides L) + a * fst (dilation L))
           (j * snd (strides L) + b * snd (dilation L)))
       (snd (kernel_size L))) (fst (kernel_size L))) (dim_c x div groups L)"

text \<open>
  \<^verbatim>\<open>F.Convolution(x, weight, bias, kernel, stride, dilate, pad, num_filter, num_group, no_bias)\<close>
  on a batch in layout \<^verbatim>\<open>NCHW\<close>: a cross-correlation with zero padding on both sides of
  each spatial axis.
\<close>

definition Convolution ::
  "conv2d \<Rightarrow> 'a::{zero,plus,times} ndarray \<Rightarrow> 'a ndarray \<Rightarrow> 'a ndarray1 option \<Rightarrow> 'a ndarray option" where
  "Convolution L x w b =
     (if conv_args_ok L (dim_c x) w b then
        do { h \<leftarrow> conv_out_dim (dim_h x) (fst (kernel_size L)) (fst (strides L))
                    (fst (padding L)) (fst (dilation L));
             v \<leftarrow> conv_out_dim (dim_w x) (snd (kernel_size L)) (snd (strides L))
                    (snd (padding L)) (snd (dilation L));
             Some \<lparr>dim_n = dim_n x, dim_c = channels L, dim_h = h, dim_w = v,
                   elem = (\<lambda>n oc i j. case b of None \<Rightarrow> conv_elem L x w n oc i j
                                        | Some bv \<Rightarrow> conv_elem L x w n oc i j + elem1 bv oc)\<rparr> }
      else None)"

text \<open>
  \<^verbatim>\<open>Conv2D.hybrid_forward\<close> of Gluon: the convolution, then the activation when the block
  has one. An activation the namespace does not know is an error.
\<close>

definition Conv2D_hybrid_forward ::
  "'a framework \<Rightarrow> conv2d \<Rightarrow> 'a::{zero,plus,times} ndarray \<Rightarrow> 'a conv_params \<Rightarrow> 'a ndarray option" where
  "Conv2D_hybrid_forward F L x p =
     do { act \<leftarrow> Convolution L x (weight p) (bias p);
          case activation L of
            None \<Rightarrow> Some act
          | Some name \<Rightarrow> (case F_Activation F name of None \<Rightarrow> None | Some f \<Rightarrow> Some (tmap f act)) }"

section \<open>The masked convolutions\<close>

text \<open>
  \<^verbatim>\<open>VStack.__init__\<close> and \<^verbatim>\<open>HStack.__init__\<close> only compute the padding they hand to
  \<^verbatim>\<open>Conv2D.__init__\<close>. The test \<^verbatim>\<open>'A' is kernel_type\<close> holds for the string \<^verbatim>\<open>'A'\<close>
  and for no other; every other kernel type takes the second branch. A kernel extent of 0
  would make the padding \<open>-1\<close> in Python; the convolution rejects such a kernel in any case,
  so the truncated subtraction on \<open>nat\<close> changes nothing.
\<close>

definition VStack ::
  "nat \<Rightarrow> nat \<times> nat \<Rightarrow> nat \<times> nat \<Rightarrow> nat \<times> nat \<Rightarrow> nat \<Rightarrow> string option \<Rightarrow> bool \<Rightarrow> nat \<Rightarrow> string
   \<Rightarrow> conv2d" where
  "VStack ch ks st dl g act ub inc kernel_type =
     Conv2D ch ks st
       (if kernel_type = ''A'' then fst ks else fst ks - 1, snd ks div 2)
       dl g act ub inc"

definition HStack ::
  "nat \<Rightarrow> nat \<Rightarrow> nat \<times> nat \<Rightarrow> nat \<times> nat \<Rightarrow> nat \<Rightarrow> string option \<Rightarrow> bool \<Rightarrow> nat \<Rightarrow> string
   \<Rightarrow> conv2d" where
  "HStack ch kernel_len st dl g act ub inc kernel_type =
     Conv2D ch (1, kernel_len) st
       (0, if kernel_type = ''A'' then kernel_len else kernel_len - 1)
       dl g act ub inc"

text \<open>
  \<^verbatim>\<open>VStack.hybrid_forward\<close> and \<^verbatim>\<open>HStack.hybrid_forward\<close> have the same body: the forward
  pass of the parent class, cut to the spatial extents of the input.
\<close>

definition VStack_hybrid_forward ::
  "'a framework \<Rightarrow> conv2d \<Rightarrow> 'a::{zero,plus,times} ndarray \<Rightarrow> 'a conv_params \<Rightarrow> 'a ndarray option" where
  "VStack_hybrid_forward F L x p =
     do { act \<leftarrow> Conv2D_hybrid_forward F L x p; slice_like act x }"

definition HStack_hybrid_forward ::
  "'a framework \<Rightarrow> conv2d \<Rightarrow> 'a::{zero,plus,times} ndarray \<Rightarrow> 'a conv_params \<Rightarrow> 'a ndarray option" where
  "HStack_hybrid_forward F L x p =
     do { act \<leftarrow> Conv2D_hybrid_forward F L x p; slice_like act x }"

section \<open>The gated layer\<close>

text \<open>
  \<^verbatim>\<open>GatedLayer.__init__\<close> stores \<^verbatim>\<open>channels\<close> and \<^verbatim>\<open>residual\<close> and builds four convolution
  blocks. The vertical and the horizontal stack produce \<^verbatim>\<open>channels*2\<close> feature maps, both
  receive the \<^verbatim>\<open>in_channels\<close> of the layer, and the two \<open>1 \<times> 1\<close> convolutions receive the
  strides and the groups of the layer as well.
\<close>

record gated_layer =
  gl_channels :: nat
  gl_residual :: bool
  gl_vstack :: conv2d
  gl_hstack :: conv2d
  gl_vtoh :: conv2d
  gl_htoh :: conv2d

definition GatedLayer ::
  "nat \<Rightarrow> nat \<times> nat \<Rightarrow> nat \<times> nat \<Rightarrow> nat \<times> nat \<Rightarrow> nat \<Rightarrow> bool \<Rightarrow> nat \<Rightarrow> string \<Rightarrow> bool
   \<Rightarrow> gated_layer" where
  "GatedLayer ch ks st dl g ub inc kernel_type residual =
     \<lparr>gl_channels = ch, gl_residual = residual,
      gl_vstack = VStack (ch * 2) ks st dl g None ub inc kernel_type,
      gl_hstack = HStack (ch * 2) (snd ks) st dl g None ub inc kernel_type,
      gl_vtoh = Conv2D (ch * 2) (1, 1) st (0, 0) (1, 1) g None ub (ch * 2),
      gl_htoh = Conv2D ch (1, 1) st (0, 0) (1, 1) g None ub ch\<rparr>"

record 'a gated_params =
  vstack_p :: "'a conv_params"
  hstack_p :: "'a conv_params"
  vtoh_p :: "'a conv_params"
  htoh_p :: "'a conv_params"

text \<open>
  The residual connection of the horizontal stream, the \<^verbatim>\<open>if\<close>/\<^verbatim>\<open>elif\<close>/\<^verbatim>\<open>else\<close> at the end of
  \<^verbatim>\<open>GatedLayer.hybrid_forward\<close>: nothing without \<^verbatim>\<open>residual\<close>; the input padded with zero
  channels when it has fewer than \<^verbatim>\<open>channels\<close> channels; the input itself in every other
  case.
\<close>

definition residual_connection ::
  "gated_layer \<Rightarrow> 'a::{zero,plus} ndarray \<Rightarrow> 'a ndarray \<Rightarrow> 'a ndarray option" where
  "residual_connection L hx hstack_preres =
     (if \<not> gl_residual L then Some hstack_preres
      else if dim_c hx < gl_channels L then
        do { z \<leftarrow> concat_nd hx (zeros (dim_n hx, gl_channels L - dim_c hx, dim_h hx, dim_w hx));
             broadcast_add hstack_preres z }
      else broadcast_add hstack_preres hx)"

text \<open>The gate \<^verbatim>\<open>F.sigmoid(presig) * F.tanh(pretanh)\<close> of one stream.\<close>

definition gate :: "'a framework \<Rightarrow> 'a::times ndarray \<Rightarrow> 'a ndarray \<Rightarrow> 'a ndarray option" where
  "gate F presig pretanh = broadcast_mul (tmap (F_sigmoid F) presig) (tmap (F_tanh F) pretanh)"

definition GatedLayer_hybrid_forward ::
  "'a framework \<Rightarrow> gated_layer \<Rightarrow> 'a::{zero,plus,times} ndarray \<Rightarrow> 'a gated_params
   \<Rightarrow> 'a ndarray option" where
  "GatedLayer_hybrid_forward F L x P =
     do { (vx, hx) \<leftarrow> split x;
          vstack \<leftarrow> VStack_hybrid_forward F (gl_vstack L) vx (vstack_p P);
          hs \<leftarrow> HStack_hybrid_forward F (gl_hstack L) hx (hstack_p P);
          vh \<leftarrow> Conv2D_hybrid_forward F (gl_vtoh L) vstack (vtoh_p P);
          hstack \<leftarrow> broadcast_add hs vh;
          (vstack_presig, vstack_pretanh) \<leftarrow> split vstack;
          (hstack_presig, hstack_pretanh) \<leftarrow> split hstack;
          vstack_out \<leftarrow> gate F vstack_presig vstack_pretanh;
          gated \<leftarrow> gate F hstack_presig hstack_pretanh;
          hstack_preres \<leftarrow> Conv2D_hybrid_forward F (gl_htoh L) gated (htoh_p P);
          hstack_out \<leftarrow> residual_connection L hx hstack_preres;
          concat_nd vstack_out hstack_out }"

text \<open>
  Parameters that fit a gated layer whose input halves have \<open>m\<close> channels each: every
  convolution of the layer accepts its parameters for the channel count it will see.
\<close>

definition gated_params_ok :: "gated_layer \<Rightarrow> nat \<Rightarrow> 'a gated_params \<Rightarrow> bool" where
  "gated_params_ok L m P \<longleftrightarrow>
     conv_args_ok (gl_vstack L) m (weight (vstack_p P)) (bias (vstack_p P)) \<and>
     conv_args_ok (gl_hstack L) m (weight (hstack_p P)) (bias (hstack_p P)) \<and>
     conv_args_ok (gl_vtoh L) (gl_channels L * 2) (weight (vtoh_p P)) (bias (vtoh_p P)) \<and>
     conv_args_ok (gl_htoh L) (gl_channels L) (weight (htoh_p P)) (bias (htoh_p P))"

section \<open>The network\<close>

datatype block = ConvBlock conv2d | GatedBlock gated_layer

datatype 'a block_params = ConvParams "'a conv_params" | GatedParams "'a gated_params"

text \<open>
  Calling one child of the \<^verbatim>\<open>Sequential\<close> container. A block always owns parameters of
  its own kind; the last equation is there for totality.
\<close>

fun block_forward ::
  "'a framework \<Rightarrow> block \<Rightarrow> 'a block_params \<Rightarrow> 'a::{zero,plus,times} ndarray \<Rightarrow> 'a ndarray option" where
  "block_forward F (ConvBlock L) (ConvParams p) x = Conv2D_hybrid_forward F L x p"
| "block_forward F (GatedBlock L) (GatedParams p) x = GatedLayer_hybrid_forward F L x p"
| "block_forward F _ _ x = None"

fun Sequential_forward ::
  "'a framework \<Rightarrow> block list \<Rightarrow> 'a block_params list \<Rightarrow> 'a::{zero,plus,times} ndarray
   \<Rightarrow> 'a ndarray option" where
  "Sequential_forward F [] [] x = Some x"
| "Sequential_forward F (b # bs) (p # ps) x =
     do { y \<leftarrow> block_forward F b p x; Sequential_forward F bs ps y }"
| "Sequential_forward F _ _ x = None"

text \<open>
  The blocks added to \<^verbatim>\<open>net\<close>, every argument the notebook leaves out at its default:
  strides and dilation \<open>(1, 1)\<close>, one group, a bias, \<^verbatim>\<open>in_channels\<close> 0.
\<close>

definition net_blocks :: "block list" where
  "net_blocks =
     [ConvBlock (Conv2D 8 (1, 1) (1, 1) (0, 0) (1, 1) 1 None True 0),
      GatedBlock (GatedLayer 16 (5, 5) (1, 1) (1, 1) 1 True 0 ''A'' False),
      GatedBlock (GatedLayer 16 (5, 5) (1, 1) (1, 1) 1 True 0 ''B'' False),
      GatedBlock (GatedLayer 16 (5, 5) (1, 1) (1, 1) 1 True 0 ''B'' False),
      GatedBlock (GatedLayer 16 (5, 5) (1, 1) (1, 1) 1 True 0 ''B'' False),
      GatedBlock (GatedLayer 16 (5, 5) (1, 1) (1, 1) 1 True 0 ''B'' False),
      GatedBlock (GatedLayer 16 (5, 5) (1, 1) (1, 1) 1 True 0 ''B'' False),
      ConvBlock (Conv2D 1 (1, 1) (1, 1) (0, 0) (1, 1) 1 (Some ''relu'') True 0)]"

definition net ::
  "'a framework \<Rightarrow> 'a block_params list \<Rightarrow> 'a::{zero,plus,times} ndarray \<Rightarrow> 'a ndarray option" where
  "net F ps x = Sequential_forward F net_blocks ps x"

text \<open>
  Parameters that fit the network: every block has parameters of its own kind that fit the
  channel count the block will see, starting from an input of \<open>C\<close> channels.
\<close>

fun block_params_ok :: "block \<Rightarrow> nat \<Rightarrow> 'a block_params \<Rightarrow> bool" where
  "block_params_ok (ConvBlock L) C (ConvParams p) = conv_args_ok L C (weight p) (bias p)"
| "block_params_ok (GatedBlock L) C (GatedParams P) = (C mod 2 = 0 \<and> gated_params_ok L (C div 2) P)"
| "block_params_ok _ C _ = False"

fun block_channels :: "block \<Rightarrow> nat" where
  "block_channels (ConvBlock L) = channels L"
| "block_channels (GatedBlock L) = 2 * gl_channels L"

fun Sequential_params_ok :: "block list \<Rightarrow> nat \<Rightarrow> 'a block_params list \<Rightarrow> bool" where
  "Sequential_params_ok [] C [] = True"
| "Sequential_params_ok (b # bs) C (p # ps) =
     (block_params_ok b C p \<and> Sequential_params_ok bs (block_channels b) ps)"
| "Sequential_params_ok _ C _ = False"

text \<open>
  Blocks that keep the spatial size: a \<open>1 \<times> 1\<close> convolution without padding, or a gated
  layer without the residual connection, in both cases with strides and dilation \<open>(1, 1)\<close>
  and an activation the namespace knows.
\<close>

fun unit_stride_block :: "'a framework \<Rightarrow> block \<Rightarrow> bool" where
  "unit_stride_block F (ConvBlock L) \<longleftrightarrow>
     kernel_size L = (1, 1) \<and> strides L = (1, 1) \<and> padding L = (0, 0) \<and> dilation L = (1, 1) \<and>
     (case activation L of None \<Rightarrow> True | Some a \<Rightarrow> F_Activation F a \<noteq> None)"
| "unit_stride_block F (GatedBlock L) \<longleftrightarrow>
     (\<exists>ch ks g ub inc kt. L = GatedLayer ch ks (1, 1) (1, 1) g ub inc kt False)"

text \<open>The network is trained on images of one channel.\<close>

definition net_params_ok :: "'a block_params list \<Rightarrow> bool" where
  "net_params_ok ps \<longleftrightarrow> Sequential_params_ok net_blocks 1 ps"

section \<open>The training loss\<close>

text \<open>\<^verbatim>\<open>mx.nd.sum(t, axis=[1,2,3])\<close>: one sum per element of the batch.\<close>

definition sum_axis123 :: "'a::{zero,plus} ndarray \<Rightarrow> 'a ndarray1" where
  "sum_axis123 t =
     \<lparr>len = dim_n t,
      elem1 = (\<lambda>n. sum_upt (\<lambda>c. sum_upt (\<lambda>i. sum_upt (\<lambda>j. elem t n c i j) (dim_w t)) (dim_h t))
                     (dim_c t))\<rparr>"

text \<open>\<^verbatim>\<open>loss = mx.nd.sum((net(x) - x)**2, axis=[1,2,3])\<close>\<close>

definition loss ::
  "'a framework \<Rightarrow> 'a block_params list \<Rightarrow> 'a::{zero,plus,minus,power} ndarray \<Rightarrow> 'a ndarray1 option" where
  "loss F ps x =
     do { y \<leftarrow> net F ps x;
          d \<leftarrow> broadcast_sub y x;
          Some (sum_axis123 (tmap (\<lambda>v. v ^ 2) d)) }"

section \<open>Image completion\<close>

text \<open>
  The first loop of the cell runs through the test batches, binds \<^verbatim>\<open>x\<close> and \<^verbatim>\<open>reconst\<close>
  and only then tests \<^verbatim>\<open>n==1\<close>: the batch kept is the second one, or the only one. With no
  batch at all \<^verbatim>\<open>reconst\<close> is unbound and the second loop raises.
  \<^verbatim>\<open>mx.nd.array(x, ctx=ctx)\<close> copies, so \<^verbatim>\<open>x\<close> and \<^verbatim>\<open>reconst\<close> do not share storage.
\<close>

fun select_batch :: "'b list \<Rightarrow> 'b option" where
  "select_batch [] = None"
| "select_batch [x0] = Some x0"
| "select_batch (x0 # x1 # xs) = Some x1"

text \<open>Reading \<^verbatim>\<open>y[:,0,i,j]\<close>; an index outside the shape raises.\<close>

definition getitem_0 :: "'a ndarray \<Rightarrow> nat \<Rightarrow> nat \<Rightarrow> 'a ndarray1 option" where
  "getitem_0 y i j =
     (if 0 < dim_c y \<and> i < dim_h y \<and> j < dim_w y
      then Some \<lparr>len = dim_n y, elem1 = (\<lambda>n. elem y n 0 i j)\<rparr>
      else None)"

text \<open>
  Writing \<^verbatim>\<open>r[:,0,i,j] = v\<close>: the value must have one element per image of the batch, or a
  single element, which is then written to every image.
\<close>

definition setitem_0 :: "'a ndarray \<Rightarrow> nat \<Rightarrow> nat \<Rightarrow> 'a ndarray1 \<Rightarrow> 'a ndarray option" where
  "setitem_0 r i j v =
     (if 0 < dim_c r \<and> i < dim_h r \<and> j < dim_w r \<and> (len v = dim_n r \<or> len v = 1)
      then Some \<lparr>dim_n = dim_n r, dim_c = dim_c r, dim_h = dim_h r, dim_w = dim_w r,
                 elem = (\<lambda>n c a b. if c = 0 \<and> a = i \<and> b = j then elem1 v (bidx (len v) n)
                                    else elem r n c a b)\<rparr>
      else None)"

text \<open>A \<^verbatim>\<open>for\<close> loop whose body may raise.\<close>

fun for_each :: "'b list \<Rightarrow> ('s \<Rightarrow> 'b \<Rightarrow> 's option) \<Rightarrow> 's \<Rightarrow> 's option" where
  "for_each [] body s = Some s"
| "for_each (b # bs) body s = do { s' \<leftarrow> body s b; for_each bs body s' }"

text \<open>\<^verbatim>\<open>reconst[:,0,i,j] = net(reconst).asnumpy()[:,0,i,j]\<close>\<close>

definition completion_step ::
  "('a ndarray \<Rightarrow> 'a ndarray option) \<Rightarrow> nat \<Rightarrow> 'a ndarray \<Rightarrow> nat \<Rightarrow> 'a ndarray option" where
  "completion_step nt i reconst j =
     do { y \<leftarrow> nt reconst; v \<leftarrow> getitem_0 y i j; setitem_0 reconst i j v }"

definition completion_loop ::
  "('a ndarray \<Rightarrow> 'a ndarray option) \<Rightarrow> 'a ndarray \<Rightarrow> 'a ndarray option" where
  "completion_loop nt reconst =
     for_each [14..<28] (\<lambda>r i. for_each [0..<28] (completion_step nt i) r) reconst"

definition image_completion ::
  "('a ndarray \<Rightarrow> 'a ndarray option) \<Rightarrow> 'a ndarray list \<Rightarrow> ('a ndarray \<times> 'a ndarray) option" where
  "image_completion nt test_loader =
     do { x \<leftarrow> select_batch test_loader;
          reconst \<leftarrow> completion_loop nt x;
          Some (x, reconst) }"

section \<open>Image completion as the specification describes it\<close>

text \<open>
  The positions of \<open>rows\<close> rows of \<open>cols\<close> columns, from row \<open>t\<close> on, in row-major
  order, and one step of the completion at a position: the buffer receives, at channel 0 of
  that position in every image, the value of the forward pass on the current buffer at
  channel 0 of that position.
\<close>

definition row_major :: "nat \<Rightarrow> nat \<Rightarrow> nat \<Rightarrow> (nat \<times> nat) list" where
  "row_major t rows cols = map (\<lambda>k. (t + k div cols, k mod cols)) [0..<rows * cols]"

definition completion_step_spec ::
  "('a ndarray \<Rightarrow> 'a ndarray option) \<Rightarrow> 'a ndarray \<Rightarrow> nat \<times> nat \<Rightarrow> 'a ndarray option" where
  "completion_step_spec nt reconst pos =
     (case nt reconst of
        None \<Rightarrow> None
      | Some y \<Rightarrow>
          if 0 < dim_c y \<and> fst pos < dim_h y \<and> snd pos < dim_w y \<and>
             0 < dim_c reconst \<and> fst pos < dim_h reconst \<and> snd pos < dim_w reconst \<and>
             (dim_n y = dim_n reconst \<or> dim_n y = 1)
          then Some \<lparr>dim_n = dim_n reconst, dim_c = dim_c reconst, dim_h = dim_h reconst,
                     dim_w = dim_w reconst,
                     elem = (\<lambda>n c a b. if c = 0 \<and> a = fst pos \<and> b = snd pos
                                        then elem y (bidx (dim_n y) n) 0 (fst pos) (snd pos)
                                        else elem reconst n c a b)\<rparr>
          else None)"

definition completion_spec ::
  "('a ndarray \<Rightarrow> 'a ndarray option) \<Rightarrow> 'a ndarray \<Rightarrow> 'a ndarray option" where
  "completion_spec nt reconst = for_each (row_major 14 14 28) (completion_step_spec nt) reconst"

section \<open>Agreement of two runs\<close>

text \<open>
  Two arrays agree on a region when they have the same shape and the same element at every
  position inside the shape whose channel, row and column lie in the region.
\<close>

definition agree_on :: "(nat \<Rightarrow> nat \<Rightarrow> nat \<Rightarrow> bool) \<Rightarrow> 'a ndarray \<Rightarrow> 'a ndarray \<Rightarrow> bool" where
  "agree_on R x y \<longleftrightarrow>
     shape x = shape y \<and>
     (\<forall>n c i j. in_range x n c i j \<and> R c i j \<longrightarrow> elem x n c i j = elem y n c i j)"

text \<open>
  The region of the output of a convolution that is determined by a region \<open>R\<close> of its
  input: the positions whose whole window, as far as it lies right of and below the
  leading padding, falls into \<open>R\<close>.
\<close>

definition window_in :: "conv2d \<Rightarrow> (nat \<Rightarrow> nat \<Rightarrow> nat \<Rightarrow> bool) \<Rightarrow> nat \<Rightarrow> nat \<Rightarrow> nat \<Rightarrow> bool" where
  "window_in L R oc i j \<longleftrightarrow>
     (\<forall>c a b. a < fst (kernel_size L) \<and> b < snd (kernel_size L) \<and>
        fst (padding L) \<le> i * fst (strides L) + a * fst (dilation L) \<and>
        snd (padding L) \<le> j * snd (strides L) + b * snd (dilation L) \<longrightarrow>
        R c (i * fst (strides L) + a * fst (dilation L) - fst (padding L))
            (j * snd (strides L) + b * snd (dilation L) - snd (padding L)))"

text \<open>Agreement at the single position \<open>(i, j)\<close>, in every channel.\<close>

definition at_pos :: "nat \<Rightarrow> nat \<Rightarrow> nat \<Rightarrow> nat \<Rightarrow> nat \<Rightarrow> bool" where
  "at_pos i j c r s \<longleftrightarrow> r = i \<and> s = j"




text \<open>The whole array, no position at all, and the first \<open>k\<close> channels.\<close>

definition everywhere :: "nat \<Rightarrow> nat \<Rightarrow> nat \<Rightarrow> bool" where
  "everywhere c i j \<longleftrightarrow> True"

definition nowhere :: "nat \<Rightarrow> nat \<Rightarrow> nat \<Rightarrow> bool" where
  "nowhere c i j \<longleftrightarrow> False"

definition first_channels :: "nat \<Rightarrow> nat \<Rightarrow> nat \<Rightarrow> nat \<Rightarrow> bool" where
  "first_channels k c i j \<longleftrightarrow> c < k"

text \<open>
  Regions around a position \<open>(i, j)\<close>: the positions before it in row-major order, the
  positions up to and including it, the rows above a row, and the region on which the two
  streams of a feature map are determined by the pixels before \<open>(i, j)\<close>: the rows up to
  \<open>i\<close> for the \<open>m\<close> channels of the vertical stream, the positions up to \<open>(i, j)\<close> for the
  channels of the horizontal stream.
\<close>

definition prior :: "nat \<Rightarrow> nat \<Rightarrow> nat \<Rightarrow> nat \<Rightarrow> nat \<Rightarrow> bool" where
  "prior i j c r s \<longleftrightarrow> r < i \<or> (r = i \<and> s < j)"

definition upto_pos :: "nat \<Rightarrow> nat \<Rightarrow> nat \<Rightarrow> nat \<Rightarrow> nat \<Rightarrow> bool" where
  "upto_pos i j c r s \<longleftrightarrow> r < i \<or> (r = i \<and> s \<le> j)"

definition rows_above :: "nat \<Rightarrow> nat \<Rightarrow> nat \<Rightarrow> nat \<Rightarrow> bool" where
  "rows_above i c r s \<longleftrightarrow> r < i"

definition streams :: "nat \<Rightarrow> nat \<Rightarrow> nat \<Rightarrow> nat \<Rightarrow> nat \<Rightarrow> nat \<Rightarrow> bool" where
  "streams m i j c r s \<longleftrightarrow> (if c < m then r \<le> i else r < i \<or> (r = i \<and> s \<le> j))"

section \<open>The gated layer as the specification describes it\<close>

text \<open>
  The channels \<open>a, ..., a + k - 1\<close> of an array, and the gated activation of an array with
  an even number of channels: at channel \<open>c\<close> the sigmoid of channel \<open>c\<close> of the first half
  times the tanh of channel \<open>c\<close> of the second half.
\<close>

definition channel_slice :: "'a ndarray \<Rightarrow> nat \<Rightarrow> nat \<Rightarrow> 'a ndarray" where
  "channel_slice x a k =
     \<lparr>dim_n = dim_n x, dim_c = k, dim_h = dim_h x, dim_w = dim_w x,
      elem = (\<lambda>n c i j. elem x n (c + a) i j)\<rparr>"

definition gated_activation :: "'a framework \<Rightarrow> 'a::times ndarray \<Rightarrow> 'a ndarray" where
  "gated_activation F t =
     \<lparr>dim_n = dim_n t, dim_c = dim_c t div 2, dim_h = dim_h t, dim_w = dim_w t,
      elem = (\<lambda>n c i j. F_sigmoid F (elem t n c i j) * F_tanh F (elem t n (c + dim_c t div 2) i j))\<rparr>"

text \<open>
  The data flow of C3 in the words of the specification: split the input channels into a
  vertical half and a horizontal half; \<open>v\<close> is the vertical stack of the vertical half;
  \<open>h\<close> is the horizontal stack of the horizontal half plus the \<open>1 \<times> 1\<close> convolution
  \<^verbatim>\<open>vtoh\<close> of \<open>v\<close>; both streams are gated; \<^verbatim>\<open>htoh\<close> is applied to the gated horizontal
  stream; the result is the gated vertical stream concatenated with the horizontal result
  after its residual connection.
\<close>

definition GatedLayer_dataflow ::
  "'a framework \<Rightarrow> gated_layer \<Rightarrow> 'a::{zero,plus,times} ndarray \<Rightarrow> 'a gated_params
   \<Rightarrow> 'a ndarray option" where
  "GatedLayer_dataflow F L x P =
     (if dim_c x mod 2 = 0 then
        do { v \<leftarrow> VStack_hybrid_forward F (gl_vstack L) (channel_slice x 0 (dim_c x div 2)) (vstack_p P);
             hs \<leftarrow> HStack_hybrid_forward F (gl_hstack L)
                     (channel_slice x (dim_c x div 2) (dim_c x div 2)) (hstack_p P);
             vh \<leftarrow> Conv2D_hybrid_forward F (gl_vtoh L) v (vtoh_p P);
             h \<leftarrow> broadcast_add hs vh;
             if dim_c v mod 2 = 0 \<and> dim_c h mod 2 = 0 then
               do { hp \<leftarrow> Conv2D_hybrid_forward F (gl_htoh L) (gated_activation F h) (htoh_p P);
                    hr \<leftarrow> residual_connection L (channel_slice x (dim_c x div 2) (dim_c x div 2)) hp;
                    concat_nd (gated_activation F v) hr }
             else None }
      else None)"

text \<open>
  The residual connection of C4 in the words of the specification: the residual input is
  brought to \<^verbatim>\<open>channels\<close> channels with zeros whenever its channel count differs from
  \<^verbatim>\<open>channels\<close>, and is added unchanged when the counts are equal.
\<close>

definition zero_pad_channels :: "'a::zero ndarray \<Rightarrow> nat \<Rightarrow> 'a ndarray" where
  "zero_pad_channels hx k =
     \<lparr>dim_n = dim_n hx, dim_c = k, dim_h = dim_h hx, dim_w = dim_w hx,
      elem = (\<lambda>n c i j. if c < dim_c hx then elem hx n c i j else 0)\<rparr>"

definition residual_connection_spec ::
  "gated_layer \<Rightarrow> 'a::{zero,plus} ndarray \<Rightarrow> 'a ndarray \<Rightarrow> 'a ndarray option" where
  "residual_connection_spec L hx hstack_preres =
     (if \<not> gl_residual L then Some hstack_preres
      else if dim_c hx \<noteq> gl_channels L
      then broadcast_add hstack_preres (zero_pad_channels hx (gl_channels L))
      else broadcast_add hstack_preres hx)"

section \<open>Concrete inputs\<close>

text \<open>
  Integer scalars and stand-ins for the scalar functions of the namespace, to run the
  definitions on small arrays.
\<close>

definition F_int :: "int framework" where
  "F_int = \<lparr>F_Activation = (\<lambda>a. if a = ''relu'' then Some (max 0) else None),
            F_sigmoid = (\<lambda>v. v + 1), F_tanh = (\<lambda>v. 2 * v)\<rparr>"

text \<open>A constant array and a weight-only parameter set with every weight 1.\<close>

definition const_array :: "nat \<times> nat \<times> nat \<times> nat \<Rightarrow> 'a \<Rightarrow> 'a ndarray" where
  "const_array s v = \<lparr>dim_n = fst s, dim_c = fst (snd s), dim_h = fst (snd (snd s)),
                      dim_w = snd (snd (snd s)), elem = (\<lambda>n c i j. v)\<rparr>"

definition ones_params :: "nat \<times> nat \<times> nat \<times> nat \<Rightarrow> int conv_params" where
  "ones_params s = \<lparr>weight = const_array s 1, bias = None\<rparr>"

text \<open>An image of one row and two columns, all zero, and the same image with a 1 at \<open>(0, 1)\<close>.\<close>

definition img_a :: "int ndarray" where
  "img_a = const_array (1, 1, 1, 2) 0"

definition img_b :: "int ndarray" where
  "img_b = \<lparr>dim_n = 1, dim_c = 1, dim_h = 1, dim_w = 2,
            elem = (\<lambda>n c i j. if j = 1 then 1 else 0)\<rparr>"

text \<open>Two images of two rows and two columns that differ at \<open>(1, 1)\<close> only.\<close>

definition img_c :: "int ndarray" where
  "img_c = const_array (1, 1, 2, 2) 0"

definition img_d :: "int ndarray" where
  "img_d = \<lparr>dim_n = 1, dim_c = 1, dim_h = 2, dim_w = 2,
            elem = (\<lambda>n c i j. if i = 1 \<and> j = 1 then 1 else 0)\<rparr>"

text \<open>
  A vertical and a horizontal stack of kernel type \<^verbatim>\<open>'B'\<close> with a kernel three columns wide,
  one filter, one group and no bias, and parameters with every weight 1.
\<close>

definition test_vstack :: conv2d where
  "test_vstack = VStack 1 (1, 3) (1, 1) (1, 1) 1 None False 0 ''B''"

definition test_hstack :: conv2d where
  "test_hstack = HStack 1 3 (1, 1) (1, 1) 1 None False 0 ''B''"

definition test_params :: "int conv_params" where
  "test_params = ones_params (1, 1, 1, 3)"

text \<open>
  A gated layer with \<^verbatim>\<open>channels=1\<close>, a \<open>1 \<times> 1\<close> kernel of type \<^verbatim>\<open>'B'\<close>, no bias and the
  residual connection, with parameters of weight 1 for input halves of \<open>m\<close> channels.
\<close>

definition test_gated :: gated_layer where
  "test_gated = GatedLayer 1 (1, 1) (1, 1) (1, 1) 1 False 0 ''B'' True"

definition test_gated_params :: "nat \<Rightarrow> int gated_params" where
  "test_gated_params m =
     \<lparr>vstack_p = ones_params (2, m, 1, 1), hstack_p = ones_params (2, m, 1, 1),
      vtoh_p = ones_params (2, 2, 1, 1), htoh_p = ones_params (1, 1, 1, 1)\<rparr>"

text \<open>
  Feature maps of one row and one column: two with two channels, which differ in the
  second channel, and one with four channels.
\<close>

definition feat_a :: "int ndarray" where
  "feat_a = const_array (1, 2, 1, 1) 1"

definition feat_b :: "int ndarray" where
  "feat_b = \<lparr>dim_n = 1, dim_c = 2, dim_h = 1, dim_w = 1,
             elem = (\<lambda>n c i j. if c = 1 then 5 else 1)\<rparr>"

definition feat_4 :: "int ndarray" where
  "feat_4 = const_array (1, 4, 1, 1) 1"

definition feat_1 :: "int ndarray" where
  "feat_1 = const_array (1, 1, 1, 1) 7"

text \<open>The same gated layer with \<^verbatim>\<open>channels=2\<close>, and parameters that fit it.\<close>

definition test_gated2 :: gated_layer where
  "test_gated2 = GatedLayer 2 (1, 1) (1, 1) (1, 1) 1 False 0 ''B'' True"

definition test_gated2_params :: "nat \<Rightarrow> int gated_params" where
  "test_gated2_params m =
     \<lparr>vstack_p = ones_params (4, m, 1, 1), hstack_p = ones_params (4, m, 1, 1),
      vtoh_p = ones_params (4, 4, 1, 1), htoh_p = ones_params (2, 2, 1, 1)\<rparr>"

text \<open>
  Parameters for the network of the notebook with every weight and every bias 1, and a
  batch of one constant image of 28 rows and 28 columns.
\<close>

definition const_params :: "nat \<times> nat \<times> nat \<times> nat \<Rightarrow> int conv_params" where
  "const_params s = \<lparr>weight = const_array s 1, bias = Some \<lparr>len = fst s, elem1 = (\<lambda>k. 1)\<rparr>\<rparr>"

definition const_gated_params :: "nat \<Rightarrow> int gated_params" where
  "const_gated_params m =
     \<lparr>vstack_p = const_params (32, m, 5, 5), hstack_p = const_params (32, m, 1, 5),
      vtoh_p = const_params (32, 32, 1, 1), htoh_p = const_params (16, 16, 1, 1)\<rparr>"

definition const_net_params :: "int block_params list" where
  "const_net_params =
     [ConvParams (const_params (8, 1, 1, 1)),
      GatedParams (const_gated_params 4),
      GatedParams (const_gated_params 16),
      GatedParams (const_gated_params 16),
      GatedParams (const_gated_params 16),
      GatedParams (const_gated_params 16),
      GatedParams (const_gated_params 16),
      ConvParams (const_params (1, 32, 1, 1))]"

definition mnist_a :: "int ndarray" where
  "mnist_a = const_array (1, 1, 28, 28) 0"

text \<open>The same batch with a 1 at \<open>(20, 3)\<close>, in the lower half.\<close>

definition mnist_b :: "int ndarray" where
  "mnist_b = \<lparr>dim_n = 1, dim_c = 1, dim_h = 28, dim_w = 28,
              elem = (\<lambda>n c i j. if i = 20 \<and> j = 3 then 1 else 0)\<rparr>"







text \<open>
  Two batches of two images of two rows and two columns, one with one channel and one
  with two channels, and parameters for the network whose first convolution reads two
  channels.
\<close>

definition batch_a :: "int ndarray" where
  "batch_a = \<lparr>dim_n = 2, dim_c = 1, dim_h = 2, dim_w = 2,
              elem = (\<lambda>n c i j. int n + 3 * int i + 5 * int j)\<rparr>"

definition batch_b :: "int ndarray" where
  "batch_b = \<lparr>dim_n = 2, dim_c = 2, dim_h = 2, dim_w = 2,
              elem = (\<lambda>n c i j. int n + 2 * int c + 3 * int i + 5 * int j)\<rparr>"

definition const_net_params2 :: "int block_params list" where
  "const_net_params2 = ConvParams (const_params (8, 2, 1, 1)) # tl const_net_params"

section \<open>Agreement is preserved by the primitives\<close>

text \<open>
  Each primitive maps two inputs that agree on a region to results that both fail or
  agree on a region of their own. For the convolution that region is \<open>window_in\<close>: an
  output position whose window lies in the region of the input.
\<close>

lemma shape_eq_iff:
  "shape x = shape y \<longleftrightarrow> dim_n x = dim_n y \<and> dim_c x = dim_c y \<and> dim_h x = dim_h y \<and> dim_w x = dim_w y"
  by (simp add: shape_def)

lemma sum_upt_cong: "(\<And>k. k < n \<Longrightarrow> f k = g k) \<Longrightarrow> sum_upt f n = sum_upt g n"
  by (induction n) simp_all

lemma rel_option_bind:
  assumes "rel_option A m m'"
    and "\<And>a a'. m = Some a \<Longrightarrow> m' = Some a' \<Longrightarrow> A a a' \<Longrightarrow> rel_option B (f a) (f' a')"
  shows "rel_option B (m \<bind> f) (m' \<bind> f')"
  using assms by (cases m; cases m') simp_all

lemma agree_on_mono:
  assumes "agree_on R x y"
    and "\<And>c i j. c < dim_c x \<Longrightarrow> i < dim_h x \<Longrightarrow> j < dim_w x \<Longrightarrow> Q c i j \<Longrightarrow> R c i j"
  shows "agree_on Q x y"
  using assms unfolding agree_on_def in_range_def by blast

lemma agree_on_shape: "agree_on R x y \<Longrightarrow> shape x = shape y"
  by (simp add: agree_on_def)

lemma agree_on_dims:
  "agree_on R x y \<Longrightarrow> dim_n y = dim_n x \<and> dim_c y = dim_c x \<and> dim_h y = dim_h x \<and> dim_w y = dim_w x"
  by (simp add: agree_on_def shape_eq_iff)

lemma agree_on_elem:
  "agree_on R x y \<Longrightarrow> n < dim_n x \<Longrightarrow> c < dim_c x \<Longrightarrow> i < dim_h x \<Longrightarrow> j < dim_w x \<Longrightarrow> R c i j
   \<Longrightarrow> elem x n c i j = elem y n c i j"
  by (simp add: agree_on_def in_range_def)

lemma tmap_agree: "agree_on R x y \<Longrightarrow> agree_on R (tmap f x) (tmap f y)"
  by (simp add: agree_on_def tmap_def shape_def in_range_def)

lemma split_agree:
  assumes "agree_on R x y"
  shows "rel_option (rel_prod (agree_on R) (agree_on (\<lambda>c. R (c + dim_c x div 2)))) (split x) (split y)"
proof -
  have d: "dim_n y = dim_n x" "dim_c y = dim_c x" "dim_h y = dim_h x" "dim_w y = dim_w x"
    using agree_on_dims[OF assms] by simp_all
  show ?thesis
  proof (cases "dim_c x mod 2 = 0")
    case True
    then have "c < dim_c x div 2 \<Longrightarrow> c + dim_c x div 2 < dim_c x" for c by presburger
    moreover have "c < dim_c x div 2 \<Longrightarrow> c < dim_c x" for c by simp
    ultimately show ?thesis using assms True
      by (simp add: split_def d agree_on_def shape_def in_range_def)
  next
    case False
    then show ?thesis by (simp add: split_def d)
  qed
qed

lemma slice_like_agree:
  assumes "agree_on R a a'" and "shape x = shape x'"
  shows "rel_option (agree_on R) (slice_like a x) (slice_like a' x')"
  using assms by (auto simp: slice_like_def agree_on_def shape_def in_range_def)

lemma concat_agree:
  assumes "agree_on R a a'" and "agree_on Q b b'"
  shows "rel_option (agree_on (\<lambda>c. if c < dim_c a then R c else Q (c - dim_c a))) (concat_nd a b) (concat_nd a' b')"
  using assms by (auto simp: concat_nd_def agree_on_def shape_def in_range_def)

lemma bidx_less: "k < d \<Longrightarrow> bidx d k < d"
  by (simp add: bidx_def)

lemma bdim_bidx: "bdim l r = Some d \<Longrightarrow> k < d \<Longrightarrow> bidx l k < l \<and> bidx r k < r"
  by (auto simp: bdim_def bidx_def split: if_splits)

lemma broadcast_op_agree:
  assumes "agree_on R a a'" and "agree_on Q b b'"
  shows "rel_option (agree_on (\<lambda>c i j. R (bidx (dim_c a) c) (bidx (dim_h a) i) (bidx (dim_w a) j) \<and>
                                     Q (bidx (dim_c b) c) (bidx (dim_h b) i) (bidx (dim_w b) j)))
           (broadcast_op f a b) (broadcast_op f a' b')"
proof -
  have d: "dim_n a' = dim_n a" "dim_c a' = dim_c a" "dim_h a' = dim_h a" "dim_w a' = dim_w a"
     "dim_n b' = dim_n b" "dim_c b' = dim_c b" "dim_h b' = dim_h b" "dim_w b' = dim_w b"
    using agree_on_dims[OF assms(1)] agree_on_dims[OF assms(2)] by simp_all
  show ?thesis
    unfolding broadcast_op_def d
    apply (cases "bdim (dim_n a) (dim_n b)"; simp)
    apply (cases "bdim (dim_c a) (dim_c b)"; simp)
    apply (cases "bdim (dim_h a) (dim_h b)"; simp)
    apply (cases "bdim (dim_w a) (dim_w b)"; simp)
    apply (simp add: agree_on_def shape_def in_range_def)
    apply (intro allI impI)
    apply (elim conjE)
    subgoal for n c h w k l i j
      using agree_on_elem[OF assms(1), of "bidx (dim_n a) k" "bidx (dim_c a) l" "bidx (dim_h a) i" "bidx (dim_w a) j"]
        agree_on_elem[OF assms(2), of "bidx (dim_n b) k" "bidx (dim_c b) l" "bidx (dim_h b) i" "bidx (dim_w b) j"]
        bdim_bidx[of "dim_n a" "dim_n b" n k] bdim_bidx[of "dim_c a" "dim_c b" c l]
        bdim_bidx[of "dim_h a" "dim_h b" h i] bdim_bidx[of "dim_w a" "dim_w b" w j]
      by simp
    done
qed

lemma group_channel_less:
  assumes "0 < g" "C mod g = 0" "ch mod g = 0" "oc < ch" "c < C div g"
  shows "(oc div (ch div g)) * (C div g) + c < (C::nat)"
proof -
  have ch: "ch = g * (ch div g)" using assms(3) by auto
  have "oc < g * (ch div g)" using assms(4) ch by simp
  then have G: "oc div (ch div g) < g" by (rule less_mult_imp_div_less)
  have "(oc div (ch div g)) * (C div g) + c < (oc div (ch div g)) * (C div g) + C div g"
    using assms(5) by simp
  also have "\<dots> = (oc div (ch div g) + 1) * (C div g)" by simp
  also have "\<dots> \<le> g * (C div g)" using G by (intro mult_le_mono1) simp
  also have "\<dots> = C" using assms(2) by auto
  finally show ?thesis .
qed

lemma padded_agree:
  assumes "agree_on R x y" "n < dim_n x" "c < dim_c x"
    and "fst pd \<le> r \<Longrightarrow> snd pd \<le> s \<Longrightarrow> R c (r - fst pd) (s - snd pd)"
  shows "padded x pd n c r s = padded y pd n c r s"
  using assms agree_on_dims[OF assms(1)] agree_on_elem[OF assms(1), of n c "r - fst pd" "s - snd pd"]
  by (simp add: padded_def)

lemma conv_elem_agree:
  assumes "agree_on R x y" "conv_args_ok L (dim_c x) w b" "n < dim_n x" "oc < channels L"
    and "window_in L R oc i j"
  shows "conv_elem L x w n oc i j = conv_elem L y w n oc i j"
proof -
  have d: "dim_c y = dim_c x" using agree_on_dims[OF assms(1)] by simp
  have ok: "0 < groups L" "dim_c x mod groups L = 0" "channels L mod groups L = 0"
    using assms(2) by (simp_all add: conv_args_ok_def)
  show ?thesis
    unfolding conv_elem_def d
  proof (intro sum_upt_cong arg_cong2[where f="(*)"] refl)
    fix c a ba
    assume c: "c < dim_c x div groups L" and a: "a < fst (kernel_size L)" and ba: "ba < snd (kernel_size L)"
    have cl: "oc div (channels L div groups L) * (dim_c x div groups L) + c < dim_c x"
      using group_channel_less[OF ok assms(4) c] .
    show "padded x (padding L) n (oc div (channels L div groups L) * (dim_c x div groups L) + c)
        (i * fst (strides L) + a * fst (dilation L)) (j * snd (strides L) + ba * snd (dilation L)) =
       padded y (padding L) n (oc div (channels L div groups L) * (dim_c x div groups L) + c)
        (i * fst (strides L) + a * fst (dilation L)) (j * snd (strides L) + ba * snd (dilation L))"
      by (rule padded_agree[OF assms(1,3) cl]) (use assms(5) a ba in \<open>simp add: window_in_def\<close>)
  qed
qed

lemma Convolution_agree:
  assumes "agree_on R x y"
  shows "rel_option (agree_on (window_in L R)) (Convolution L x w b) (Convolution L y w b)"
proof (cases "conv_args_ok L (dim_c x) w b")
  case False
  then show ?thesis using agree_on_dims[OF assms]
    by (simp add: Convolution_def)
next
  case True
  have d: "dim_n y = dim_n x" "dim_c y = dim_c x" "dim_h y = dim_h x" "dim_w y = dim_w x"
    using agree_on_dims[OF assms] by simp_all
  have e: "n < dim_n x \<Longrightarrow> oc < channels L \<Longrightarrow> window_in L R oc i j \<Longrightarrow>
      conv_elem L x w n oc i j = conv_elem L y w n oc i j" for n oc i j
    using conv_elem_agree[OF assms True] by blast
  show ?thesis
    unfolding Convolution_def d using True
    apply simp
    apply (cases "conv_out_dim (dim_h x) (fst (kernel_size L)) (fst (strides L)) (fst (padding L)) (fst (dilation L))"; simp)
    apply (cases "conv_out_dim (dim_w x) (snd (kernel_size L)) (snd (strides L)) (snd (padding L)) (snd (dilation L))"; simp)
    apply (auto simp: agree_on_def shape_def in_range_def e split: option.splits)
    done
qed

lemma Conv2D_hybrid_forward_agree:
  assumes "agree_on R x y"
  shows "rel_option (agree_on (window_in L R)) (Conv2D_hybrid_forward F L x p) (Conv2D_hybrid_forward F L y p)"
  unfolding Conv2D_hybrid_forward_def
  by (rule rel_option_bind[OF Convolution_agree[OF assms]])
     (auto split: option.splits intro: tmap_agree)

lemma VStack_hybrid_forward_agree:
  assumes "agree_on R x y"
  shows "rel_option (agree_on (window_in L R)) (VStack_hybrid_forward F L x p) (VStack_hybrid_forward F L y p)"
  unfolding VStack_hybrid_forward_def
  by (rule rel_option_bind[OF Conv2D_hybrid_forward_agree[OF assms]])
     (rule slice_like_agree[OF _ agree_on_shape[OF assms]])

lemma HStack_hybrid_forward_agree:
  assumes "agree_on R x y"
  shows "rel_option (agree_on (window_in L R)) (HStack_hybrid_forward F L x p) (HStack_hybrid_forward F L y p)"
  unfolding HStack_hybrid_forward_def
  by (rule rel_option_bind[OF Conv2D_hybrid_forward_agree[OF assms]])
     (rule slice_like_agree[OF _ agree_on_shape[OF assms]])

section \<open>Shapes and successful runs of the convolution blocks\<close>

text \<open>
  The shape of what a block returns, and the conditions under which a masked convolution
  with strides and dilation \<open>(1, 1)\<close> returns: the convolution output is then at least
  as large as the input, so the cut succeeds.
\<close>

lemma Convolution_shape:
  assumes "Convolution L x w b = Some y"
  shows "dim_n y = dim_n x" "dim_c y = channels L"
    "conv_out_dim (dim_h x) (fst (kernel_size L)) (fst (strides L)) (fst (padding L)) (fst (dilation L)) = Some (dim_h y)"
    "conv_out_dim (dim_w x) (snd (kernel_size L)) (snd (strides L)) (snd (padding L)) (snd (dilation L)) = Some (dim_w y)"
    "conv_args_ok L (dim_c x) w b"
  using assms by (auto simp: Convolution_def split: if_splits bind_splits)

lemma Conv2D_hybrid_forward_shape:
  assumes "Conv2D_hybrid_forward F L x p = Some y"
  shows "dim_n y = dim_n x" "dim_c y = channels L"
    "conv_out_dim (dim_h x) (fst (kernel_size L)) (fst (strides L)) (fst (padding L)) (fst (dilation L)) = Some (dim_h y)"
    "conv_out_dim (dim_w x) (snd (kernel_size L)) (snd (strides L)) (snd (padding L)) (snd (dilation L)) = Some (dim_w y)"
    "conv_args_ok L (dim_c x) (weight p) (bias p)"
proof -
  obtain act where a: "Convolution L x (weight p) (bias p) = Some act"
    and yd: "dim_n y = dim_n act" "dim_c y = dim_c act" "dim_h y = dim_h act" "dim_w y = dim_w act"
    using assms
    by (auto simp: Conv2D_hybrid_forward_def tmap_def split: bind_splits option.splits)
  show "dim_n y = dim_n x" "dim_c y = channels L"
    "conv_out_dim (dim_h x) (fst (kernel_size L)) (fst (strides L)) (fst (padding L)) (fst (dilation L)) = Some (dim_h y)"
    "conv_out_dim (dim_w x) (snd (kernel_size L)) (snd (strides L)) (snd (padding L)) (snd (dilation L)) = Some (dim_w y)"
    "conv_args_ok L (dim_c x) (weight p) (bias p)"
    using Convolution_shape[OF a] yd by simp_all
qed

lemma slice_like_shape:
  assumes "slice_like a x = Some y"
  shows "dim_n y = dim_n a" "dim_c y = dim_c a" "dim_h y = dim_h x" "dim_w y = dim_w x"
    "dim_h x \<le> dim_h a" "dim_w x \<le> dim_w a"
  using assms by (auto simp: slice_like_def split: if_splits)

lemma VStack_hybrid_forward_shape:
  assumes "VStack_hybrid_forward F L x p = Some y"
  shows "dim_n y = dim_n x" "dim_c y = channels L" "dim_h y = dim_h x" "dim_w y = dim_w x"
    "conv_args_ok L (dim_c x) (weight p) (bias p)"
proof -
  obtain act where a: "Conv2D_hybrid_forward F L x p = Some act" and s: "slice_like act x = Some y"
    using assms by (auto simp: VStack_hybrid_forward_def split: bind_splits)
  show "dim_n y = dim_n x" "dim_c y = channels L" "dim_h y = dim_h x" "dim_w y = dim_w x"
    "conv_args_ok L (dim_c x) (weight p) (bias p)"
    using Conv2D_hybrid_forward_shape(1,2,5)[OF a] slice_like_shape(1-4)[OF s] by simp_all
qed

lemma HStack_hybrid_forward_shape:
  assumes "HStack_hybrid_forward F L x p = Some y"
  shows "dim_n y = dim_n x" "dim_c y = channels L" "dim_h y = dim_h x" "dim_w y = dim_w x"
    "conv_args_ok L (dim_c x) (weight p) (bias p)"
proof -
  obtain act where a: "Conv2D_hybrid_forward F L x p = Some act" and s: "slice_like act x = Some y"
    using assms by (auto simp: HStack_hybrid_forward_def split: bind_splits)
  show "dim_n y = dim_n x" "dim_c y = channels L" "dim_h y = dim_h x" "dim_w y = dim_w x"
    "conv_args_ok L (dim_c x) (weight p) (bias p)"
    using Conv2D_hybrid_forward_shape(1,2,5)[OF a] slice_like_shape(1-4)[OF s] by simp_all
qed

lemma Conv2D_hybrid_forward_returns:
  assumes "conv_args_ok L (dim_c x) (weight p) (bias p)"
    and "conv_out_dim (dim_h x) (fst (kernel_size L)) (fst (strides L)) (fst (padding L)) (fst (dilation L)) = Some h"
    and "conv_out_dim (dim_w x) (snd (kernel_size L)) (snd (strides L)) (snd (padding L)) (snd (dilation L)) = Some v"
    and "case activation L of None \<Rightarrow> True | Some a \<Rightarrow> F_Activation F a \<noteq> None"
  shows "\<exists>y. Conv2D_hybrid_forward F L x p = Some y \<and> shape y = (dim_n x, channels L, h, v)"
  using assms
  by (auto simp: Conv2D_hybrid_forward_def Convolution_def tmap_def shape_def split: option.splits)

lemma VStack_out_dims:
  assumes "0 < fst ks" "0 < snd ks" "0 < H" "0 < W"
  shows "\<exists>h. conv_out_dim H (fst ks) 1 (if kt = ''A'' then fst ks else fst ks - 1) 1 = Some h \<and> H \<le> h"
    "\<exists>v. conv_out_dim W (snd ks) 1 (snd ks div 2) 1 = Some v \<and> W \<le> v"
  using assms by (auto simp: conv_out_dim_def)

lemma HStack_out_dims:
  assumes "0 < kl" "0 < H" "0 < W"
  shows "conv_out_dim H 1 1 0 1 = Some H"
    "\<exists>v. conv_out_dim W kl 1 (if kt = ''A'' then kl else kl - 1) 1 = Some v \<and> W \<le> v"
  using assms by (auto simp: conv_out_dim_def)

lemma Conv2D_sel:
  "channels (Conv2D ch ks st pd dl g act ub inc) = ch"
  "kernel_size (Conv2D ch ks st pd dl g act ub inc) = ks"
  "strides (Conv2D ch ks st pd dl g act ub inc) = st"
  "padding (Conv2D ch ks st pd dl g act ub inc) = pd"
  "dilation (Conv2D ch ks st pd dl g act ub inc) = dl"
  "groups (Conv2D ch ks st pd dl g act ub inc) = g"
  "activation (Conv2D ch ks st pd dl g act ub inc) = act"
  "use_bias (Conv2D ch ks st pd dl g act ub inc) = ub"
  "in_channels (Conv2D ch ks st pd dl g act ub inc) = inc"
  by (simp_all add: Conv2D_def)

lemma VStack_sel:
  "channels (VStack ch ks st dl g act ub inc kt) = ch"
  "kernel_size (VStack ch ks st dl g act ub inc kt) = ks"
  "strides (VStack ch ks st dl g act ub inc kt) = st"
  "padding (VStack ch ks st dl g act ub inc kt) = (if kt = ''A'' then fst ks else fst ks - 1, snd ks div 2)"
  "dilation (VStack ch ks st dl g act ub inc kt) = dl"
  "groups (VStack ch ks st dl g act ub inc kt) = g"
  "activation (VStack ch ks st dl g act ub inc kt) = act"
  "use_bias (VStack ch ks st dl g act ub inc kt) = ub"
  "in_channels (VStack ch ks st dl g act ub inc kt) = inc"
  by (simp_all add: VStack_def Conv2D_sel)

lemma HStack_sel:
  "channels (HStack ch kl st dl g act ub inc kt) = ch"
  "kernel_size (HStack ch kl st dl g act ub inc kt) = (1, kl)"
  "strides (HStack ch kl st dl g act ub inc kt) = st"
  "padding (HStack ch kl st dl g act ub inc kt) = (0, if kt = ''A'' then kl else kl - 1)"
  "dilation (HStack ch kl st dl g act ub inc kt) = dl"
  "groups (HStack ch kl st dl g act ub inc kt) = g"
  "activation (HStack ch kl st dl g act ub inc kt) = act"
  "use_bias (HStack ch kl st dl g act ub inc kt) = ub"
  "in_channels (HStack ch kl st dl g act ub inc kt) = inc"
  by (simp_all add: HStack_def Conv2D_sel)

lemma VStack_returns:
  assumes "conv_args_ok (VStack ch ks (1, 1) (1, 1) g None ub inc kt) (dim_c x) (weight p) (bias p)"
    and "0 < dim_h x" "0 < dim_w x"
  shows "\<exists>y. VStack_hybrid_forward F (VStack ch ks (1, 1) (1, 1) g None ub inc kt) x p = Some y"
proof -
  define L where "L = VStack ch ks (1, 1) (1, 1) g None ub inc kt"
  have k: "0 < fst ks" "0 < snd ks" using assms(1) by (simp_all add: conv_args_ok_def VStack_sel)
  obtain h where h: "conv_out_dim (dim_h x) (fst ks) 1 (if kt = ''A'' then fst ks else fst ks - 1) 1 = Some h" "dim_h x \<le> h"
    using VStack_out_dims(1)[where kt=kt, OF k assms(2,3)] by blast
  obtain v where v: "conv_out_dim (dim_w x) (snd ks) 1 (snd ks div 2) 1 = Some v" "dim_w x \<le> v"
    using VStack_out_dims(2)[OF k assms(2,3)] by blast
  have "\<exists>y. Conv2D_hybrid_forward F L x p = Some y \<and> shape y = (dim_n x, channels L, h, v)"
    by (rule Conv2D_hybrid_forward_returns) (use assms(1) h(1) v(1) in \<open>simp_all add: L_def VStack_sel\<close>)
  then obtain y where y: "Conv2D_hybrid_forward F L x p = Some y" "shape y = (dim_n x, channels L, h, v)"
    by blast
  have "dim_h y = h" "dim_w y = v" using y(2) by (simp_all add: shape_def)
  then have "slice_like y x \<noteq> None" using h(2) v(2) by (simp add: slice_like_def)
  then show ?thesis using y(1) unfolding L_def[symmetric] by (auto simp add: VStack_hybrid_forward_def)
qed

lemma HStack_returns:
  assumes "conv_args_ok (HStack ch kl (1, 1) (1, 1) g None ub inc kt) (dim_c x) (weight p) (bias p)"
    and "0 < dim_h x" "0 < dim_w x"
  shows "\<exists>y. HStack_hybrid_forward F (HStack ch kl (1, 1) (1, 1) g None ub inc kt) x p = Some y"
proof -
  define L where "L = HStack ch kl (1, 1) (1, 1) g None ub inc kt"
  have k: "0 < kl" using assms(1) by (simp_all add: conv_args_ok_def HStack_sel)
  have h: "conv_out_dim (dim_h x) 1 1 0 1 = Some (dim_h x)"
    using HStack_out_dims(1)[OF k assms(2,3)] .
  obtain v where v: "conv_out_dim (dim_w x) kl 1 (if kt = ''A'' then kl else kl - 1) 1 = Some v" "dim_w x \<le> v"
    using HStack_out_dims(2)[where kt=kt, OF k assms(2,3)] by blast
  have "\<exists>y. Conv2D_hybrid_forward F L x p = Some y \<and> shape y = (dim_n x, channels L, dim_h x, v)"
    by (rule Conv2D_hybrid_forward_returns) (use assms(1) h v(1) in \<open>simp_all add: L_def HStack_sel\<close>)
  then obtain y where y: "Conv2D_hybrid_forward F L x p = Some y" "shape y = (dim_n x, channels L, dim_h x, v)"
    by blast
  have "dim_h y = dim_h x" "dim_w y = v" using y(2) by (simp_all add: shape_def)
  then have "slice_like y x \<noteq> None" using v(2) by (simp add: slice_like_def)
  then show ?thesis using y(1) unfolding L_def[symmetric] by (auto simp add: HStack_hybrid_forward_def)
qed

lemma rel_option_weaken:
  assumes "rel_option A m m'"
    and "\<And>a b. m = Some a \<Longrightarrow> m' = Some b \<Longrightarrow> A a b \<Longrightarrow> B a b"
  shows "rel_option B m m'"
  using assms by (cases m; cases m') simp_all



section \<open>Running the definitions on concrete inputs\<close>

lemma sum_upt_numeral:
  "sum_upt f (numeral k) = sum_upt f (pred_numeral k) + f (pred_numeral k)"
  by (simp add: numeral_eq_Suc)

lemma masked_forward_unfold:
  "VStack_hybrid_forward F L x p =
     (if conv_args_ok L (dim_c x) (weight p) (bias p) then
        do { h \<leftarrow> conv_out_dim (dim_h x) (fst (kernel_size L)) (fst (strides L))
                    (fst (padding L)) (fst (dilation L));
             v \<leftarrow> conv_out_dim (dim_w x) (snd (kernel_size L)) (snd (strides L))
                    (snd (padding L)) (snd (dilation L));
             act \<leftarrow> (case activation L of
                       None \<Rightarrow> Some (\<lambda>a. a)
                     | Some name \<Rightarrow> F_Activation F name);
             if dim_h x \<le> h \<and> dim_w x \<le> v
             then Some \<lparr>dim_n = dim_n x, dim_c = channels L, dim_h = dim_h x, dim_w = dim_w x,
                   elem = (\<lambda>n oc i j. act (case bias p of None \<Rightarrow> conv_elem L x (weight p) n oc i j
                      | Some bv \<Rightarrow> conv_elem L x (weight p) n oc i j + elem1 bv oc))\<rparr>
             else None }
      else None)"
  "HStack_hybrid_forward F L x p = VStack_hybrid_forward F L x p"
  by (auto simp: VStack_hybrid_forward_def HStack_hybrid_forward_def Conv2D_hybrid_forward_def
      Convolution_def slice_like_def tmap_def split: bind_splits option.splits)



lemma dims_imgs:
  "dim_n img_a = Suc 0" "dim_c img_a = Suc 0" "dim_h img_a = Suc 0" "dim_w img_a = 2"
  "dim_n img_b = Suc 0" "dim_c img_b = Suc 0" "dim_h img_b = Suc 0" "dim_w img_b = 2"
  "dim_n img_c = Suc 0" "dim_c img_c = Suc 0" "dim_h img_c = 2" "dim_w img_c = 2"
  "dim_n img_d = Suc 0" "dim_c img_d = Suc 0" "dim_h img_d = 2" "dim_w img_d = 2"
  by (simp_all add: img_a_def img_b_def img_c_def img_d_def const_array_def)

lemma test_stack_sel:
  "channels test_vstack = Suc 0" "kernel_size test_vstack = (Suc 0, 3)"
  "strides test_vstack = (Suc 0, Suc 0)" "padding test_vstack = (0, Suc 0)"
  "dilation test_vstack = (Suc 0, Suc 0)" "groups test_vstack = Suc 0"
  "activation test_vstack = None"
  "channels test_hstack = Suc 0" "kernel_size test_hstack = (Suc 0, 3)"
  "strides test_hstack = (Suc 0, Suc 0)" "padding test_hstack = (0, 2)"
  "dilation test_hstack = (Suc 0, Suc 0)" "groups test_hstack = Suc 0"
  "activation test_hstack = None"
  by (simp_all add: test_vstack_def test_hstack_def VStack_sel HStack_sel)

lemma test_params_sel:
  "bias test_params = None" "elem (weight test_params) oc c a b = 1"
  by (simp_all add: test_params_def ones_params_def const_array_def)

lemma test_params_ok:
  "conv_args_ok test_vstack (Suc 0) (weight test_params) None"
  "conv_args_ok test_hstack (Suc 0) (weight test_params) None"
  by (simp_all add: conv_args_ok_def test_vstack_def test_hstack_def VStack_sel HStack_sel
      test_params_def ones_params_def const_array_def shape_def)

lemma test_vstack_forward:
  "VStack_hybrid_forward F_int test_vstack img_a test_params =
   Some \<lparr>dim_n = 1, dim_c = 1, dim_h = 1, dim_w = 2,
         elem = conv_elem test_vstack img_a (weight test_params)\<rparr>"
  "VStack_hybrid_forward F_int test_vstack img_b test_params =
   Some \<lparr>dim_n = 1, dim_c = 1, dim_h = 1, dim_w = 2,
         elem = conv_elem test_vstack img_b (weight test_params)\<rparr>"
  by (simp_all add: masked_forward_unfold(1) test_params_ok dims_imgs test_stack_sel
      test_params_sel(1) conv_out_dim_def)

lemma test_stacks_return:
  "VStack_hybrid_forward F_int test_vstack img_c test_params \<noteq> None"
  "HStack_hybrid_forward F_int test_hstack img_c test_params \<noteq> None"
  "HStack_hybrid_forward F_int test_hstack img_a test_params \<noteq> None"
  by (simp_all add: masked_forward_unfold test_params_ok dims_imgs test_stack_sel
      test_params_sel(1) conv_out_dim_def)












section \<open>Shapes and successful runs of the gated layer\<close>

text \<open>
  The intermediate arrays of a forward pass that returns, their shapes, and the conditions
  under which the forward pass returns. The channel count of the horizontal result is
  \<^verbatim>\<open>channels\<close> without the residual connection and the larger of \<^verbatim>\<open>channels\<close> and the
  channel count of the residual input with it.
\<close>

lemma GatedLayer_sel:
  "gl_channels (GatedLayer ch ks st dl g ub inc kt res) = ch"
  "gl_residual (GatedLayer ch ks st dl g ub inc kt res) = res"
  "gl_vstack (GatedLayer ch ks st dl g ub inc kt res) = VStack (ch * 2) ks st dl g None ub inc kt"
  "gl_hstack (GatedLayer ch ks st dl g ub inc kt res) = HStack (ch * 2) (snd ks) st dl g None ub inc kt"
  "gl_vtoh (GatedLayer ch ks st dl g ub inc kt res) = Conv2D (ch * 2) (1, 1) st (0, 0) (1, 1) g None ub (ch * 2)"
  "gl_htoh (GatedLayer ch ks st dl g ub inc kt res) = Conv2D ch (1, 1) st (0, 0) (1, 1) g None ub ch"
  by (simp_all add: GatedLayer_def)

lemma split_shape:
  assumes "split x = Some (a, b)"
  shows "dim_n a = dim_n x" "dim_c a = dim_c x div 2" "dim_h a = dim_h x" "dim_w a = dim_w x"
    "dim_n b = dim_n x" "dim_c b = dim_c x div 2" "dim_h b = dim_h x" "dim_w b = dim_w x"
    "dim_c x mod 2 = 0"
  using assms by (auto simp: split_def split: if_splits)

lemma concat_shape:
  assumes "concat_nd a b = Some y"
  shows "dim_n y = dim_n a" "dim_c y = dim_c a + dim_c b" "dim_h y = dim_h a" "dim_w y = dim_w a"
    "dim_n b = dim_n a" "dim_h b = dim_h a" "dim_w b = dim_w a"
  using assms by (auto simp: concat_nd_def split: if_splits)

lemma broadcast_op_shape:
  assumes "broadcast_op f a b = Some y"
  shows "bdim (dim_n a) (dim_n b) = Some (dim_n y)" "bdim (dim_c a) (dim_c b) = Some (dim_c y)"
    "bdim (dim_h a) (dim_h b) = Some (dim_h y)" "bdim (dim_w a) (dim_w b) = Some (dim_w y)"
  using assms by (auto simp: broadcast_op_def split: bind_splits)

lemma bdim_same [simp]: "bdim d d = Some d"
  by (simp add: bdim_def)

lemma broadcast_op_same_shape:
  assumes "shape a = shape b"
  shows "\<exists>y. broadcast_op f a b = Some y \<and> shape y = shape a"
  using assms by (simp add: broadcast_op_def shape_def)

lemma gate_shape:
  assumes "gate F a b = Some y" "shape a = shape b"
  shows "shape y = shape a"
  using assms broadcast_op_shape[of "(*)" "tmap (F_sigmoid F) a" "tmap (F_tanh F) b" y]
  by (simp add: gate_def broadcast_mul_def tmap_def shape_def)

lemma GatedLayer_hybrid_forwardE:
  assumes "GatedLayer_hybrid_forward F L x P = Some out"
  obtains vx hx vstack hs vh hstack vps vpt hps hpt vstack_out gated hstack_preres hstack_out where
    "split x = Some (vx, hx)"
    "VStack_hybrid_forward F (gl_vstack L) vx (vstack_p P) = Some vstack"
    "HStack_hybrid_forward F (gl_hstack L) hx (hstack_p P) = Some hs"
    "Conv2D_hybrid_forward F (gl_vtoh L) vstack (vtoh_p P) = Some vh"
    "broadcast_add hs vh = Some hstack"
    "split vstack = Some (vps, vpt)"
    "split hstack = Some (hps, hpt)"
    "gate F vps vpt = Some vstack_out"
    "gate F hps hpt = Some gated"
    "Conv2D_hybrid_forward F (gl_htoh L) gated (htoh_p P) = Some hstack_preres"
    "residual_connection L hx hstack_preres = Some hstack_out"
    "concat_nd vstack_out hstack_out = Some out"
  using assms unfolding GatedLayer_hybrid_forward_def
  by (auto split: bind_splits prod.splits)


lemma shape_tuple:
  "shape x = (n, c, h, w) \<longleftrightarrow> dim_n x = n \<and> dim_c x = c \<and> dim_h x = h \<and> dim_w x = w"
  by (auto simp: shape_def)

lemma residual_connection_channels:
  assumes "residual_connection L hx p = Some y" "dim_c p = gl_channels L" "0 < gl_channels L"
  shows "dim_c y = (if gl_residual L then max (gl_channels L) (dim_c hx) else gl_channels L)"
proof (cases "gl_residual L")
  case False
  then show ?thesis using assms by (simp add: residual_connection_def)
next
  case True
  show ?thesis
  proof (cases "dim_c hx < gl_channels L")
    case less: True
    then obtain z where z: "concat_nd hx (zeros (dim_n hx, gl_channels L - dim_c hx, dim_h hx, dim_w hx)) = Some z"
      and y: "broadcast_op (+) p z = Some y"
      using assms(1) True by (auto simp: residual_connection_def broadcast_add_def split: bind_splits)
    have "dim_c z = gl_channels L" using concat_shape(2)[OF z] less by (simp add: zeros_def)
    then have "dim_c y = gl_channels L" using broadcast_op_shape(2)[OF y] assms(2) by simp
    then show ?thesis using True less by simp
  next
    case False
    then have y: "broadcast_op (+) p hx = Some y"
      using assms(1) True by (simp add: residual_connection_def broadcast_add_def)
    have "bdim (gl_channels L) (dim_c hx) = Some (dim_c y)"
      using broadcast_op_shape(2)[OF y] assms(2) by simp
    then show ?thesis using True False assms(3) by (auto simp: bdim_def split: if_splits)
  qed
qed

lemma GatedLayer_shape:
  assumes "GatedLayer_hybrid_forward F (GatedLayer ch ks st dl g ub inc kt res) x P = Some out"
  shows "dim_n out = dim_n x" "dim_h out = dim_h x" "dim_w out = dim_w x"
    "dim_c out = ch + (if res then max ch (dim_c x div 2) else ch)"
proof -
  define L where "L = GatedLayer ch ks st dl g ub inc kt res"
  from assms obtain vx hx vstack hs vh hstack vps vpt hps hpt vstack_out gated hstack_preres hstack_out where
    e: "split x = Some (vx, hx)"
    "VStack_hybrid_forward F (gl_vstack L) vx (vstack_p P) = Some vstack"
    "split vstack = Some (vps, vpt)"
    "gate F vps vpt = Some vstack_out"
    "Conv2D_hybrid_forward F (gl_htoh L) gated (htoh_p P) = Some hstack_preres"
    "residual_connection L hx hstack_preres = Some hstack_out"
    "concat_nd vstack_out hstack_out = Some out"
    unfolding L_def[symmetric] by (rule GatedLayer_hybrid_forwardE)
  have v: "dim_n vstack = dim_n x" "dim_c vstack = ch * 2" "dim_h vstack = dim_h x" "dim_w vstack = dim_w x"
    using VStack_hybrid_forward_shape(1-4)[OF e(2)] split_shape(1-4)[OF e(1)]
    by (simp_all add: L_def GatedLayer_sel VStack_sel)
  have "shape vps = shape vpt" using split_shape[OF e(3)] by (simp add: shape_def)
  then have "shape vstack_out = shape vps" using gate_shape[OF e(4)] by simp
  then have vo: "dim_n vstack_out = dim_n x" "dim_c vstack_out = ch" "dim_h vstack_out = dim_h x"
    "dim_w vstack_out = dim_w x"
    using split_shape(1-4)[OF e(3)] v by (simp_all add: shape_def)
  have p: "dim_c hstack_preres = ch" "0 < ch"
    using Conv2D_hybrid_forward_shape(2,5)[OF e(5)]
    by (simp_all add: L_def GatedLayer_sel Conv2D_sel conv_args_ok_def)
  have "dim_c hstack_out = (if res then max ch (dim_c hx) else ch)"
    using residual_connection_channels[OF e(6)] p by (simp add: L_def GatedLayer_sel)
  then have ho: "dim_c hstack_out = (if res then max ch (dim_c x div 2) else ch)"
    using split_shape(6)[OF e(1)] by simp
  show "dim_n out = dim_n x" "dim_h out = dim_h x" "dim_w out = dim_w x"
    "dim_c out = ch + (if res then max ch (dim_c x div 2) else ch)"
    using concat_shape(1-4)[OF e(7)] vo ho by simp_all
qed

lemma Conv1x1_returns:
  assumes "conv_args_ok (Conv2D ch (1, 1) (1, 1) (0, 0) (1, 1) g act ub inc) (dim_c x) (weight p) (bias p)"
    and "0 < dim_h x" "0 < dim_w x"
    and "case act of None \<Rightarrow> True | Some a \<Rightarrow> F_Activation F a \<noteq> None"
  shows "\<exists>y. Conv2D_hybrid_forward F (Conv2D ch (1, 1) (1, 1) (0, 0) (1, 1) g act ub inc) x p = Some y \<and>
    shape y = (dim_n x, ch, dim_h x, dim_w x)"
proof -
  define L where "L = Conv2D ch (1, 1) (1, 1) (0, 0) (1, 1) g act ub inc"
  have "\<exists>y. Conv2D_hybrid_forward F L x p = Some y \<and> shape y = (dim_n x, channels L, dim_h x, dim_w x)"
    by (rule Conv2D_hybrid_forward_returns)
       (use assms in \<open>simp_all add: L_def Conv2D_sel conv_out_dim_def\<close>)
  then show ?thesis by (simp add: L_def Conv2D_sel)
qed

lemma VStack_returns_shape:
  assumes "conv_args_ok (VStack ch ks (1, 1) (1, 1) g None ub inc kt) (dim_c x) (weight p) (bias p)"
    and "0 < dim_h x" "0 < dim_w x"
  shows "\<exists>y. VStack_hybrid_forward F (VStack ch ks (1, 1) (1, 1) g None ub inc kt) x p = Some y \<and>
     shape y = (dim_n x, ch, dim_h x, dim_w x)"
proof -
  obtain y where y: "VStack_hybrid_forward F (VStack ch ks (1, 1) (1, 1) g None ub inc kt) x p = Some y"
    using VStack_returns[OF assms] by blast
  show ?thesis using y VStack_hybrid_forward_shape(1-4)[OF y] by (simp add: shape_tuple VStack_sel)
qed

lemma HStack_returns_shape:
  assumes "conv_args_ok (HStack ch kl (1, 1) (1, 1) g None ub inc kt) (dim_c x) (weight p) (bias p)"
    and "0 < dim_h x" "0 < dim_w x"
  shows "\<exists>y. HStack_hybrid_forward F (HStack ch kl (1, 1) (1, 1) g None ub inc kt) x p = Some y \<and>
     shape y = (dim_n x, ch, dim_h x, dim_w x)"
proof -
  obtain y where y: "HStack_hybrid_forward F (HStack ch kl (1, 1) (1, 1) g None ub inc kt) x p = Some y"
    using HStack_returns[OF assms] by blast
  show ?thesis using y HStack_hybrid_forward_shape(1-4)[OF y] by (simp add: shape_tuple HStack_sel)
qed

lemma split_returns:
  assumes "dim_c x mod 2 = 0"
  shows "\<exists>a b. split x = Some (a, b) \<and> shape a = (dim_n x, dim_c x div 2, dim_h x, dim_w x) \<and>
    shape b = (dim_n x, dim_c x div 2, dim_h x, dim_w x)"
  using assms by (simp add: split_def shape_def)

lemma gate_returns:
  assumes "shape a = shape b"
  shows "\<exists>y. gate F a b = Some y \<and> shape y = shape a"
proof -
  have "shape (tmap (F_sigmoid F) a) = shape (tmap (F_tanh F) b)"
    using assms by (simp add: tmap_def shape_def)
  from broadcast_op_same_shape[OF this, of "(*)"] show ?thesis
    by (simp add: gate_def broadcast_mul_def tmap_def shape_def)
qed

lemma residual_connection_returns:
  assumes "shape p = (dim_n hx, gl_channels L, dim_h hx, dim_w hx)"
    and "gl_residual L \<longrightarrow> dim_c hx \<le> gl_channels L"
  shows "\<exists>y. residual_connection L hx p = Some y \<and> shape y = shape p"
proof (cases "gl_residual L")
  case False
  then show ?thesis by (simp add: residual_connection_def)
next
  case True
  show ?thesis
  proof (cases "dim_c hx < gl_channels L")
    case less: True
    have "\<exists>z. concat_nd hx (zeros (dim_n hx, gl_channels L - dim_c hx, dim_h hx, dim_w hx)) = Some z \<and>
        shape z = (dim_n hx, gl_channels L, dim_h hx, dim_w hx)"
      using less by (simp add: concat_nd_def zeros_def shape_def)
    then obtain z where c: "concat_nd hx (zeros (dim_n hx, gl_channels L - dim_c hx, dim_h hx, dim_w hx)) = Some z"
      and "shape z = (dim_n hx, gl_channels L, dim_h hx, dim_w hx)" by blast
    then have "shape p = shape z" using assms(1) by simp
    from broadcast_op_same_shape[OF this, of "(+)"] show ?thesis
      using True less c by (simp add: residual_connection_def broadcast_add_def)
  next
    case False
    then have "dim_c hx = gl_channels L" using assms(2) True by simp
    then have "shape p = shape hx" using assms(1) by (simp add: shape_def)
    from broadcast_op_same_shape[OF this, of "(+)"] show ?thesis
      using True False by (simp add: residual_connection_def broadcast_add_def)
  qed
qed

lemma residual_connection_broadcasts:
  assumes "shape p = (dim_n hx, 1, dim_h hx, dim_w hx)" "gl_residual L" "gl_channels L = 1"
    "1 < dim_c hx"
  shows "\<exists>y. residual_connection L hx p = Some y \<and>
     dim_n y = dim_n hx \<and> dim_h y = dim_h hx \<and> dim_w y = dim_w hx"
  using assms
  by (simp add: residual_connection_def broadcast_add_def broadcast_op_def shape_tuple bdim_def)

lemma GatedLayer_returns:
  assumes ok: "gated_params_ok (GatedLayer ch ks (1, 1) (1, 1) g ub inc kt res) (dim_c x div 2) P"
    and even: "dim_c x mod 2 = 0" and pos: "0 < dim_h x" "0 < dim_w x"
    and res: "res \<longrightarrow> dim_c x div 2 \<le> ch \<or> ch = 1"
  shows "\<exists>out. GatedLayer_hybrid_forward F (GatedLayer ch ks (1, 1) (1, 1) g ub inc kt res) x P = Some out"
proof -
  define L where "L = GatedLayer ch ks (1, 1) (1, 1) g ub inc kt res"
  have okv: "conv_args_ok (VStack (ch * 2) ks (1, 1) (1, 1) g None ub inc kt) (dim_c x div 2)
      (weight (vstack_p P)) (bias (vstack_p P))"
    and okh: "conv_args_ok (HStack (ch * 2) (snd ks) (1, 1) (1, 1) g None ub inc kt) (dim_c x div 2)
      (weight (hstack_p P)) (bias (hstack_p P))"
    and okvh: "conv_args_ok (Conv2D (ch * 2) (1, 1) (1, 1) (0, 0) (1, 1) g None ub (ch * 2)) (ch * 2)
      (weight (vtoh_p P)) (bias (vtoh_p P))"
    and okhh: "conv_args_ok (Conv2D ch (1, 1) (1, 1) (0, 0) (1, 1) g None ub ch) ch
      (weight (htoh_p P)) (bias (htoh_p P))"
    using ok by (simp_all add: gated_params_ok_def GatedLayer_sel)
  obtain vx hx where s: "split x = Some (vx, hx)"
    and vx: "shape vx = (dim_n x, dim_c x div 2, dim_h x, dim_w x)"
    and hx: "shape hx = (dim_n x, dim_c x div 2, dim_h x, dim_w x)"
    using split_returns[OF even] by blast
  have dvx: "dim_n vx = dim_n x" "dim_c vx = dim_c x div 2" "dim_h vx = dim_h x" "dim_w vx = dim_w x"
    using vx by (simp_all add: shape_tuple)
  have dhx: "dim_n hx = dim_n x" "dim_c hx = dim_c x div 2" "dim_h hx = dim_h x" "dim_w hx = dim_w x"
    using hx by (simp_all add: shape_tuple)
  obtain vstack where v: "VStack_hybrid_forward F (gl_vstack L) vx (vstack_p P) = Some vstack"
    and vs: "shape vstack = (dim_n x, ch * 2, dim_h x, dim_w x)"
    using VStack_returns_shape[of "ch * 2" ks g ub inc kt vx "vstack_p P" F] okv pos
    by (auto simp: dvx L_def GatedLayer_sel)
  have dv: "dim_n vstack = dim_n x" "dim_c vstack = ch * 2" "dim_h vstack = dim_h x" "dim_w vstack = dim_w x"
    using vs by (simp_all add: shape_tuple)
  obtain hs where h: "HStack_hybrid_forward F (gl_hstack L) hx (hstack_p P) = Some hs"
    and hss: "shape hs = (dim_n x, ch * 2, dim_h x, dim_w x)"
    using HStack_returns_shape[of "ch * 2" "snd ks" g ub inc kt hx "hstack_p P" F] okh pos
    by (auto simp: dhx L_def GatedLayer_sel)
  obtain vh where vh: "Conv2D_hybrid_forward F (gl_vtoh L) vstack (vtoh_p P) = Some vh"
    and vhs: "shape vh = (dim_n x, ch * 2, dim_h x, dim_w x)"
    using Conv1x1_returns[of "ch * 2" g None ub "ch * 2" vstack "vtoh_p P" F] okvh pos
    by (auto simp: dv L_def GatedLayer_sel)
  obtain hstack where a: "broadcast_add hs vh = Some hstack"
    and as: "shape hstack = (dim_n x, ch * 2, dim_h x, dim_w x)"
    using broadcast_op_same_shape[of hs vh "(+)"] hss vhs by (auto simp: broadcast_add_def)
  obtain vps vpt where sv: "split vstack = Some (vps, vpt)"
    and vps: "shape vps = (dim_n x, ch, dim_h x, dim_w x)" and vpt: "shape vpt = (dim_n x, ch, dim_h x, dim_w x)"
    using split_returns[of vstack] by (auto simp: dv)
  have dh: "dim_n hstack = dim_n x" "dim_c hstack = ch * 2" "dim_h hstack = dim_h x" "dim_w hstack = dim_w x"
    using as by (simp_all add: shape_tuple)
  obtain hps hpt where sh: "split hstack = Some (hps, hpt)"
    and hps: "shape hps = (dim_n x, ch, dim_h x, dim_w x)" and hpt: "shape hpt = (dim_n x, ch, dim_h x, dim_w x)"
    using split_returns[of hstack] by (auto simp: dh)
  obtain vstack_out where gv: "gate F vps vpt = Some vstack_out"
    and gvs: "shape vstack_out = (dim_n x, ch, dim_h x, dim_w x)"
    using gate_returns[of vps vpt F] vps vpt by auto
  obtain gated where gh: "gate F hps hpt = Some gated"
    and ghs: "shape gated = (dim_n x, ch, dim_h x, dim_w x)"
    using gate_returns[of hps hpt F] hps hpt by auto
  have dg: "dim_n gated = dim_n x" "dim_c gated = ch" "dim_h gated = dim_h x" "dim_w gated = dim_w x"
    using ghs by (simp_all add: shape_tuple)
  obtain hstack_preres where hp: "Conv2D_hybrid_forward F (gl_htoh L) gated (htoh_p P) = Some hstack_preres"
    and hpss: "shape hstack_preres = (dim_n x, ch, dim_h x, dim_w x)"
    using Conv1x1_returns[of ch g None ub ch gated "htoh_p P" F] okhh pos
    by (auto simp: dg L_def GatedLayer_sel)
  have "\<exists>y. residual_connection L hx hstack_preres = Some y \<and>
      dim_n y = dim_n x \<and> dim_h y = dim_h x \<and> dim_w y = dim_w x"
  proof (cases "res \<longrightarrow> dim_c x div 2 \<le> ch")
    case True
    then show ?thesis
      using residual_connection_returns[of hstack_preres hx L] hpss
      by (auto simp: dhx L_def GatedLayer_sel shape_tuple)
  next
    case False
    then show ?thesis
      using residual_connection_broadcasts[of hstack_preres hx L] hpss res
      by (auto simp: dhx L_def GatedLayer_sel shape_tuple)
  qed
  then obtain hstack_out where r: "residual_connection L hx hstack_preres = Some hstack_out"
    and rs: "dim_n hstack_out = dim_n x" "dim_h hstack_out = dim_h x" "dim_w hstack_out = dim_w x"
    by blast
  have "concat_nd vstack_out hstack_out \<noteq> None"
    using gvs rs by (simp add: concat_nd_def shape_tuple)
  then show ?thesis
    unfolding L_def[symmetric] GatedLayer_hybrid_forward_def
    using s v h vh a sv sh gv gh hp r by auto
qed

lemma agree_on_refl: "agree_on R x x"
  by (simp add: agree_on_def)

lemma agree_on_sym: "agree_on R x y \<Longrightarrow> agree_on R y x"
  by (auto simp: agree_on_def shape_def in_range_def)

lemma agree_on_trans: "agree_on R x y \<Longrightarrow> agree_on R y z \<Longrightarrow> agree_on R x z"
  by (auto simp: agree_on_def shape_def in_range_def)

lemma concat_zeros_pad:
  assumes "dim_c hx \<le> k"
  shows "\<exists>z. concat_nd hx (zeros (dim_n hx, k - dim_c hx, dim_h hx, dim_w hx)) = Some z \<and>
     agree_on everywhere z (zero_pad_channels hx k)"
  using assms
  by (auto simp: concat_nd_def zeros_def zero_pad_channels_def agree_on_def shape_def in_range_def)

lemma broadcast_op_agree_everywhere:
  assumes "agree_on everywhere a a'" "agree_on everywhere b b'"
  shows "rel_option (agree_on everywhere) (broadcast_op f a b) (broadcast_op f a' b')"
  by (rule rel_option_weaken[OF broadcast_op_agree[OF assms]])
     (auto elim!: agree_on_mono simp: everywhere_def)

lemma dims_feats:
  "dim_n feat_a = Suc 0" "dim_c feat_a = 2" "dim_h feat_a = Suc 0" "dim_w feat_a = Suc 0"
  "dim_n feat_b = Suc 0" "dim_c feat_b = 2" "dim_h feat_b = Suc 0" "dim_w feat_b = Suc 0"
  "dim_n feat_4 = Suc 0" "dim_c feat_4 = 4" "dim_h feat_4 = Suc 0" "dim_w feat_4 = Suc 0"
  "dim_n feat_1 = Suc 0" "dim_c feat_1 = Suc 0" "dim_h feat_1 = Suc 0" "dim_w feat_1 = Suc 0"
  by (simp_all add: feat_a_def feat_b_def feat_4_def feat_1_def const_array_def)

lemma test_gated_sel:
  "gl_residual test_gated" "gl_channels test_gated = Suc 0"
  "gl_residual test_gated2" "gl_channels test_gated2 = 2"
  by (simp_all add: test_gated_def test_gated2_def GatedLayer_sel)

lemma test_gated_params_ok:
  "gated_params_ok test_gated m (test_gated_params m)"
  "gated_params_ok test_gated2 m (test_gated2_params m)"
  by (simp_all add: gated_params_ok_def test_gated_def test_gated2_def GatedLayer_sel conv_args_ok_def
      VStack_sel HStack_sel Conv2D_sel test_gated_params_def test_gated2_params_def
      ones_params_def const_array_def shape_def)

section \<open>Whether a forward pass fails depends on the shape of its input only\<close>

text \<open>
  Agreement on the empty region is equality of shapes: two runs on inputs of one shape
  fail together, and their results have one shape.
\<close>

lemma agree_on_nowhere: "agree_on nowhere x y \<longleftrightarrow> shape x = shape y"
  by (simp add: agree_on_def nowhere_def)

lemma agree_on_nowhereI: "agree_on R x y \<Longrightarrow> agree_on nowhere x y"
  by (simp add: agree_on_def nowhere_def)

lemma rel_option_SomeD: "rel_option A m m' \<Longrightarrow> m = Some a \<Longrightarrow> m' = Some b \<Longrightarrow> A a b"
  by simp

lemma bind_nowhere:
  assumes "rel_option (agree_on nowhere) m m'"
    and "\<And>a a'. agree_on nowhere a a' \<Longrightarrow> rel_option (agree_on nowhere) (f a) (f' a')"
  shows "rel_option (agree_on nowhere) (m \<bind> f) (m' \<bind> f')"
  using assms by (cases m; cases m') simp_all

lemma bind_pair_nowhere:
  assumes "rel_option (rel_prod (agree_on nowhere) (agree_on nowhere)) m m'"
    and "\<And>a b a' b'. agree_on nowhere a a' \<Longrightarrow> agree_on nowhere b b' \<Longrightarrow>
           rel_option (agree_on nowhere) (f a b) (f' a' b')"
  shows "rel_option (agree_on nowhere) (m \<bind> case_prod f) (m' \<bind> case_prod f')"
  using assms by (cases m; cases m') auto

lemma split_nowhere:
  "agree_on nowhere x y \<Longrightarrow> rel_option (rel_prod (agree_on nowhere) (agree_on nowhere)) (split x) (split y)"
  by (auto simp: agree_on_nowhere split_def shape_def)

lemma Conv2D_nowhere:
  "agree_on nowhere x y \<Longrightarrow>
   rel_option (agree_on nowhere) (Conv2D_hybrid_forward F L x p) (Conv2D_hybrid_forward F L y p)"
  by (rule rel_option_weaken[OF Conv2D_hybrid_forward_agree]) (auto intro: agree_on_nowhereI)

lemma VStack_nowhere:
  "agree_on nowhere x y \<Longrightarrow>
   rel_option (agree_on nowhere) (VStack_hybrid_forward F L x p) (VStack_hybrid_forward F L y p)"
  by (rule rel_option_weaken[OF VStack_hybrid_forward_agree]) (auto intro: agree_on_nowhereI)

lemma HStack_nowhere:
  "agree_on nowhere x y \<Longrightarrow>
   rel_option (agree_on nowhere) (HStack_hybrid_forward F L x p) (HStack_hybrid_forward F L y p)"
  by (rule rel_option_weaken[OF HStack_hybrid_forward_agree]) (auto intro: agree_on_nowhereI)

lemma broadcast_op_nowhere:
  "agree_on nowhere a a' \<Longrightarrow> agree_on nowhere b b' \<Longrightarrow>
   rel_option (agree_on nowhere) (broadcast_op f a b) (broadcast_op f a' b')"
  by (rule rel_option_weaken[OF broadcast_op_agree]) (auto intro: agree_on_nowhereI)

lemma broadcast_add_nowhere:
  "agree_on nowhere a a' \<Longrightarrow> agree_on nowhere b b' \<Longrightarrow>
   rel_option (agree_on nowhere) (broadcast_add a b) (broadcast_add a' b')"
  unfolding broadcast_add_def by (rule broadcast_op_nowhere)

lemma gate_nowhere:
  "agree_on nowhere a a' \<Longrightarrow> agree_on nowhere b b' \<Longrightarrow>
   rel_option (agree_on nowhere) (gate F a b) (gate F a' b')"
  unfolding gate_def broadcast_mul_def
  by (rule broadcast_op_nowhere) (rule tmap_agree, assumption)+

lemma concat_nowhere:
  "agree_on nowhere a a' \<Longrightarrow> agree_on nowhere b b' \<Longrightarrow>
   rel_option (agree_on nowhere) (concat_nd a b) (concat_nd a' b')"
  by (rule rel_option_weaken[OF concat_agree]) (auto intro: agree_on_nowhereI)

lemma residual_connection_nowhere:
  assumes "agree_on nowhere hx hy" "agree_on nowhere p p'"
  shows "rel_option (agree_on nowhere) (residual_connection L hx p) (residual_connection L hy p')"
proof -
  have d: "dim_n hy = dim_n hx" "dim_c hy = dim_c hx" "dim_h hy = dim_h hx" "dim_w hy = dim_w hx"
    using agree_on_dims[OF assms(1)] by simp_all
  show ?thesis
    unfolding residual_connection_def d
    by (auto intro!: bind_nowhere concat_nowhere broadcast_add_nowhere assms agree_on_refl)
qed

lemma GatedLayer_nowhere:
  assumes "agree_on nowhere x y"
  shows "rel_option (agree_on nowhere)
    (GatedLayer_hybrid_forward F L x P) (GatedLayer_hybrid_forward F L y P)"
  unfolding GatedLayer_hybrid_forward_def
  by (intro bind_pair_nowhere bind_nowhere split_nowhere VStack_nowhere HStack_nowhere
      Conv2D_nowhere broadcast_add_nowhere gate_nowhere residual_connection_nowhere
      concat_nowhere assms)

lemma bidx_id: "k < d \<Longrightarrow> bidx d k = k"
  by (auto simp: bidx_def)

lemma broadcast_op_agree_same_shape:
  assumes "agree_on R a a'" "agree_on Q b b'" "shape a = shape b"
  shows "rel_option (agree_on (\<lambda>c i j. R c i j \<and> Q c i j)) (broadcast_op f a b) (broadcast_op f a' b')"
proof (rule rel_option_weaken[OF broadcast_op_agree[OF assms(1,2)]])
  fix y y'
  assume y: "broadcast_op f a b = Some y"
    and a: "agree_on (\<lambda>c i j. R (bidx (dim_c a) c) (bidx (dim_h a) i) (bidx (dim_w a) j) \<and>
                    Q (bidx (dim_c b) c) (bidx (dim_h b) i) (bidx (dim_w b) j)) y y'"
  have d: "dim_c b = dim_c a" "dim_h b = dim_h a" "dim_w b = dim_w a"
    using assms(3) by (simp_all add: shape_def)
  have dy: "dim_c y = dim_c a" "dim_h y = dim_h a" "dim_w y = dim_w a"
    using broadcast_op_shape(2-4)[OF y] d by simp_all
  show "agree_on (\<lambda>c i j. R c i j \<and> Q c i j) y y'"
    by (rule agree_on_mono[OF a]) (simp add: d dy bidx_id)
qed

lemma gate_agree:
  assumes "agree_on R a a'" "agree_on R b b'" "shape a = shape b"
  shows "rel_option (agree_on R) (gate F a b) (gate F a' b')"
proof -
  have s: "shape (tmap (F_sigmoid F) a) = shape (tmap (F_tanh F) b)"
    using assms(3) by (simp add: tmap_def shape_def)
  show ?thesis
    unfolding gate_def broadcast_mul_def
    by (rule rel_option_weaken[OF broadcast_op_agree_same_shape[OF tmap_agree[OF assms(1)] tmap_agree[OF assms(2)] s]])
       (auto elim: agree_on_mono)
qed

lemma window_in_everywhere: "window_in L everywhere oc i j"
  by (simp add: window_in_def everywhere_def)

lemma concat_elem_first:
  "concat_nd a b = Some y \<Longrightarrow> c < dim_c a \<Longrightarrow> elem y n c i j = elem a n c i j"
  by (auto simp: concat_nd_def split: if_splits)

lemma concat_elem_second:
  "concat_nd a b = Some y \<Longrightarrow> dim_c a \<le> c \<Longrightarrow> elem y n c i j = elem b n (c - dim_c a) i j"
  by (auto simp: concat_nd_def split: if_splits)

lemma bind_same_rel:
  assumes "\<And>a. m = Some a \<Longrightarrow> rel_option B (f a) (f' a)"
  shows "rel_option B (m \<bind> f) (m \<bind> f')"
  using assms by (cases m) simp_all

lemma split_channel_slice:
  "split x = (if dim_c x mod 2 = 0
     then Some (channel_slice x 0 (dim_c x div 2), channel_slice x (dim_c x div 2) (dim_c x div 2))
     else None)"
  by (simp add: split_def channel_slice_def)

lemma gate_split:
  assumes "dim_c t mod 2 = 0"
  shows "\<exists>go. gate F (channel_slice t 0 (dim_c t div 2)) (channel_slice t (dim_c t div 2) (dim_c t div 2)) = Some go \<and>
    agree_on everywhere go (gated_activation F t)"
  by (simp add: gate_def broadcast_mul_def broadcast_op_def tmap_def channel_slice_def
      gated_activation_def agree_on_def shape_def in_range_def bidx_id)

lemma concat_agree_everywhere:
  assumes "agree_on everywhere a a'" "agree_on everywhere b b'"
  shows "rel_option (agree_on everywhere) (concat_nd a b) (concat_nd a' b')"
  by (rule rel_option_weaken[OF concat_agree[OF assms]])
     (auto elim!: agree_on_mono simp: everywhere_def)

lemma Conv2D_agree_everywhere:
  assumes "agree_on everywhere x y"
  shows "rel_option (agree_on everywhere) (Conv2D_hybrid_forward F L x p) (Conv2D_hybrid_forward F L y p)"
  by (rule rel_option_weaken[OF Conv2D_hybrid_forward_agree[OF assms]])
     (auto elim!: agree_on_mono intro: window_in_everywhere)

lemma residual_connection_agree_everywhere:
  assumes "agree_on everywhere p p'"
  shows "rel_option (agree_on everywhere) (residual_connection L hx p) (residual_connection L hx p')"
  unfolding residual_connection_def broadcast_add_def
  by (auto intro!: bind_same_rel broadcast_op_agree_everywhere assms agree_on_refl)

lemma gated_tail_agree:
  assumes "agree_on everywhere vo vo'" "agree_on everywhere g g'"
  shows "rel_option (agree_on everywhere)
     (Conv2D_hybrid_forward F Lh g p \<bind> (\<lambda>hp. residual_connection L hx hp \<bind> concat_nd vo))
     (Conv2D_hybrid_forward F Lh g' p \<bind> (\<lambda>hp. residual_connection L hx hp \<bind> concat_nd vo'))"
  by (intro rel_option_bind[OF Conv2D_agree_everywhere[OF assms(2)]]
      rel_option_bind[OF residual_connection_agree_everywhere] concat_agree_everywhere assms(1))

section \<open>The completion loops\<close>

text \<open>
  Two nested loops are one loop over the pairs of their indices, and the pairs of the rows
  \<open>t, ..., t + h - 1\<close> with the columns \<open>0, ..., w - 1\<close> are \<open>row_major t h w\<close>.
\<close>

lemma for_each_append:
  "for_each (xs @ ys) body s = for_each xs body s \<bind> for_each ys body"
  by (induction xs arbitrary: s) (simp_all split: bind_splits)

lemma for_each_pairs:
  "for_each (map (Pair i) js) (\<lambda>r pos. f (fst pos) r (snd pos)) s = for_each js (f i) s"
proof (induction js arbitrary: s)
  case Nil
  show ?case by simp
next
  case (Cons j js)
  have "for_each (map (Pair i) js) (\<lambda>r pos. f (fst pos) r (snd pos)) = for_each js (f i)"
    by (rule ext) (rule Cons.IH)
  then show ?case by simp
qed

lemma for_each_nested:
  "for_each rows (\<lambda>r i. for_each js (f i) r) s =
   for_each (concat (map (\<lambda>i. map (Pair i) js) rows)) (\<lambda>r pos. f (fst pos) r (snd pos)) s"
proof (induction rows arbitrary: s)
  case Nil
  show ?case by simp
next
  case (Cons i rows)
  have "for_each rows (\<lambda>r i. for_each js (f i) r) =
      for_each (concat (map (\<lambda>i. map (Pair i) js) rows)) (\<lambda>r pos. f (fst pos) r (snd pos))"
    by (rule ext) (rule Cons.IH)
  then show ?case by (simp add: for_each_append for_each_pairs)
qed

lemma row_major_Suc:
  "row_major t (Suc h) w = row_major t h w @ map (Pair (t + h)) [0..<w]"
proof -
  have "[0..<Suc h * w] = [0..<h * w] @ map (\<lambda>j. j + h * w) [0..<w]"
    using upt_add_eq_append[of 0 "h * w" w] map_add_upt[of "h * w" w] by (simp add: add.commute)
  then show ?thesis
    by (simp add: row_major_def)
qed

lemma rows_row_major:
  "concat (map (\<lambda>i. map (Pair i) [0..<w]) [t..<t + h]) = row_major t h w"
  by (induction h) (simp_all add: row_major_Suc, simp add: row_major_def)

lemma completion_step_eq:
  "completion_step nt i reconst j = completion_step_spec nt reconst (i, j)"
  by (auto simp: completion_step_def completion_step_spec_def getitem_0_def setitem_0_def
      fun_eq_iff split: option.splits)

lemma completion_step_frame:
  assumes "completion_step nt i r j = Some r'"
  shows "shape r' = shape r" "\<not> (c = 0 \<and> a = i \<and> b = j) \<Longrightarrow> elem r' n c a b = elem r n c a b"
  using assms
  by (auto simp: completion_step_def getitem_0_def setitem_0_def shape_def
      split: bind_splits if_splits)

lemma row_loop_frame:
  assumes "for_each js (completion_step nt i) r = Some r'"
  shows "shape r' = shape r \<and>
    (\<forall>n c a b. \<not> (c = 0 \<and> a = i \<and> b \<in> set js) \<longrightarrow> elem r' n c a b = elem r n c a b)"
  using assms
proof (induction js arbitrary: r)
  case Nil
  then show ?case by simp
next
  case (Cons j js)
  from Cons.prems obtain r1 where s: "completion_step nt i r j = Some r1"
    and t: "for_each js (completion_step nt i) r1 = Some r'"
    by (auto split: bind_splits)
  show ?case
    using Cons.IH[OF t] completion_step_frame[OF s] by auto
qed

lemma rows_loop_frame:
  assumes "for_each rows (\<lambda>r i. for_each js (completion_step nt i) r) r = Some r'"
  shows "shape r' = shape r \<and>
    (\<forall>n c a b. \<not> (c = 0 \<and> a \<in> set rows \<and> b \<in> set js) \<longrightarrow> elem r' n c a b = elem r n c a b)"
  using assms
proof (induction rows arbitrary: r)
  case Nil
  then show ?case by simp
next
  case (Cons i rows)
  from Cons.prems obtain r1 where s: "for_each js (completion_step nt i) r = Some r1"
    and t: "for_each rows (\<lambda>r i. for_each js (completion_step nt i) r) r1 = Some r'"
    by (auto split: bind_splits)
  show ?case
    using Cons.IH[OF t] row_loop_frame[OF s] by auto
qed

section \<open>The network returns\<close>

text \<open>
  Every block of the network keeps the batch size, the height and the width, so with
  parameters that fit the forward pass of the network returns an array of one channel
  with the spatial size of its input.
\<close>

lemma block_forward_returns:
  assumes "unit_stride_block F b" "block_params_ok b (dim_c x) p" "0 < dim_h x" "0 < dim_w x"
  shows "\<exists>y. block_forward F b p x = Some y \<and>
     shape y = (dim_n x, block_channels b, dim_h x, dim_w x)"
proof (cases b)
  case (ConvBlock L)
  then obtain q where p: "p = ConvParams q" and ok: "conv_args_ok L (dim_c x) (weight q) (bias q)"
    using assms(2) by (cases p) simp_all
  have u: "kernel_size L = (1, 1)" "strides L = (1, 1)" "padding L = (0, 0)" "dilation L = (1, 1)"
    "case activation L of None \<Rightarrow> True | Some a \<Rightarrow> F_Activation F a \<noteq> None"
    using assms(1) ConvBlock by simp_all
  have "\<exists>y. Conv2D_hybrid_forward F L x q = Some y \<and> shape y = (dim_n x, channels L, dim_h x, dim_w x)"
    by (rule Conv2D_hybrid_forward_returns[OF ok])
       (use assms(3,4) u in \<open>simp_all add: conv_out_dim_def\<close>)
  then show ?thesis using ConvBlock p by simp
next
  case (GatedBlock L)
  then obtain P where p: "p = GatedParams P" and ok: "gated_params_ok L (dim_c x div 2) P"
    and even: "dim_c x mod 2 = 0"
    using assms(2) by (cases p) simp_all
  from assms(1) GatedBlock obtain ch ks g ub inc kt where
    L: "L = GatedLayer ch ks (1, 1) (1, 1) g ub inc kt False" by auto
  have "\<exists>y. GatedLayer_hybrid_forward F (GatedLayer ch ks (1, 1) (1, 1) g ub inc kt False) x P = Some y"
    by (rule GatedLayer_returns) (use ok even assms(3,4) L in simp_all)
  then obtain y where y: "GatedLayer_hybrid_forward F (GatedLayer ch ks (1, 1) (1, 1) g ub inc kt False) x P = Some y"
    by auto
  have "shape y = (dim_n x, 2 * ch, dim_h x, dim_w x)"
    using GatedLayer_shape[OF y] by (simp add: shape_tuple)
  then show ?thesis using GatedBlock p y L by (simp add: GatedLayer_sel)
qed

lemma Sequential_returns:
  assumes "list_all (unit_stride_block F) bs" "Sequential_params_ok bs (dim_c x) ps"
    "0 < dim_h x" "0 < dim_w x"
  shows "\<exists>y. Sequential_forward F bs ps x = Some y \<and>
     dim_n y = dim_n x \<and> dim_h y = dim_h x \<and> dim_w y = dim_w x \<and>
     dim_c y = (if bs = [] then dim_c x else block_channels (last bs))"
  using assms
proof (induction bs arbitrary: ps x)
  case Nil
  then show ?case by (cases ps) simp_all
next
  case (Cons b bs)
  then obtain p ps' where ps: "ps = p # ps'" and okb: "block_params_ok b (dim_c x) p"
    and okr: "Sequential_params_ok bs (block_channels b) ps'"
    by (cases ps) simp_all
  from Cons.prems(1) have ub: "unit_stride_block F b" and ur: "list_all (unit_stride_block F) bs"
    by simp_all
  obtain y1 where y1: "block_forward F b p x = Some y1"
    and s1: "shape y1 = (dim_n x, block_channels b, dim_h x, dim_w x)"
    using block_forward_returns[OF ub okb Cons.prems(3,4)] by auto
  have d1: "dim_n y1 = dim_n x" "dim_c y1 = block_channels b" "dim_h y1 = dim_h x" "dim_w y1 = dim_w x"
    using s1 by (simp_all add: shape_tuple)
  obtain y where y: "Sequential_forward F bs ps' y1 = Some y"
    and dy: "dim_n y = dim_n y1" "dim_h y = dim_h y1" "dim_w y = dim_w y1"
      "dim_c y = (if bs = [] then dim_c y1 else block_channels (last bs))"
    using Cons.IH[of y1 ps'] ur okr Cons.prems(3,4) d1 by auto
  show ?case using ps y1 y dy d1 by simp
qed

lemma net_returns:
  assumes "net_params_ok ps" "F_Activation F ''relu'' \<noteq> None" "dim_c x = 1"
    "0 < dim_h x" "0 < dim_w x"
  shows "\<exists>y. net F ps x = Some y \<and> shape y = (dim_n x, 1, dim_h x, dim_w x)"
proof -
  have u: "list_all (unit_stride_block F) net_blocks"
    using assms(2) by (auto simp: net_blocks_def Conv2D_sel intro!: exI)
  have ok: "Sequential_params_ok net_blocks (dim_c x) ps"
    using assms(1,3) by (simp add: net_params_ok_def)
  have "block_channels (last net_blocks) = 1" "net_blocks \<noteq> []"
    by (simp_all add: net_blocks_def Conv2D_sel)
  then show ?thesis
    using Sequential_returns[OF u ok assms(4,5)] by (auto simp: net_def shape_tuple)
qed

section \<open>Causality of the gated layer and of the network\<close>

text \<open>
  A gated layer with strides and dilation \<open>(1, 1)\<close> and no residual connection. If
  the vertical input half is known on \<open>Rv\<close> and the horizontal input half on \<open>Rh\<close>,
  the vertical output is known wherever the window of the vertical stack lies in \<open>Rv\<close>,
  and the horizontal output wherever the window of the horizontal stack lies in \<open>Rh\<close>
  and the vertical output is known. For the first layer (type \<^verbatim>\<open>'A'\<close>) both input regions
  are the positions before \<open>(i, j)\<close>; for the later layers they are the rows up to \<open>i\<close>
  and the positions up to \<open>(i, j)\<close>, which these layers preserve.
\<close>

lemma window_in_oc: "window_in L R oc i j \<Longrightarrow> window_in L R oc' i j"
  by (simp add: window_in_def)

lemma window_1x1:
  "window_in (Conv2D ch (1, 1) (1, 1) (0, 0) (1, 1) g act ub inc) R oc i j \<longleftrightarrow> (\<forall>c. R c i j)"
  by (simp add: window_in_def Conv2D_sel)

lemma conv_out_dim_1x1: "conv_out_dim H (Suc 0) (Suc 0) 0 (Suc 0) = Some h \<Longrightarrow> h = H"
  by (auto simp: conv_out_dim_def split: if_splits)

lemma Conv1x1_shape:
  assumes "Conv2D_hybrid_forward F (Conv2D ch (1, 1) (1, 1) (0, 0) (1, 1) g act ub inc) x p = Some y"
  shows "shape y = (dim_n x, ch, dim_h x, dim_w x)"
  using Conv2D_hybrid_forward_shape(1-4)[OF assms]
  by (auto simp: Conv2D_sel shape_tuple dest: conv_out_dim_1x1)

lemma GatedLayer_causal:
  fixes Rv Rh Rv' Rh' :: "nat \<Rightarrow> nat \<Rightarrow> bool"
  assumes x: "agree_on (\<lambda>c. if c < dim_c x div 2 then Rv else Rh) x y"
    and wv: "\<And>r s. Rv' r s \<Longrightarrow>
        window_in (VStack (ch * 2) ks (1, 1) (1, 1) g None ub inc kt) (\<lambda>c. Rv) 0 r s"
    and wh: "\<And>r s. Rh' r s \<Longrightarrow>
        window_in (HStack (ch * 2) (snd ks) (1, 1) (1, 1) g None ub inc kt) (\<lambda>c. Rh) 0 r s"
    and sub: "\<And>r s. Rh' r s \<Longrightarrow> Rv' r s"
  shows "rel_option (agree_on (\<lambda>c. if c < ch then Rv' else Rh'))
     (GatedLayer_hybrid_forward F (GatedLayer ch ks (1, 1) (1, 1) g ub inc kt False) x P)
     (GatedLayer_hybrid_forward F (GatedLayer ch ks (1, 1) (1, 1) g ub inc kt False) y P)"
proof -
  define L where "L = GatedLayer ch ks (1, 1) (1, 1) g ub inc kt False"
  have Ls: "gl_vstack L = VStack (ch * 2) ks (1, 1) (1, 1) g None ub inc kt"
    "gl_hstack L = HStack (ch * 2) (snd ks) (1, 1) (1, 1) g None ub inc kt"
    "gl_vtoh L = Conv2D (ch * 2) (1, 1) (1, 1) (0, 0) (1, 1) g None ub (ch * 2)"
    "gl_htoh L = Conv2D ch (1, 1) (1, 1) (0, 0) (1, 1) g None ub ch"
    "\<not> gl_residual L"
    by (simp_all add: L_def GatedLayer_sel)
  have nw: "rel_option (agree_on nowhere)
      (GatedLayer_hybrid_forward F L x P) (GatedLayer_hybrid_forward F L y P)"
    by (rule GatedLayer_nowhere[OF agree_on_nowhereI[OF x]])
  show ?thesis
    unfolding L_def[symmetric]
  proof (rule rel_option_weaken[OF nw])
    fix out out'
    assume o: "GatedLayer_hybrid_forward F L x P = Some out"
      and o': "GatedLayer_hybrid_forward F L y P = Some out'"
    from o obtain vx hx vs hs vh hstack vps vpt hps hpt vo gt pre ho where
      e: "split x = Some (vx, hx)"
      "VStack_hybrid_forward F (gl_vstack L) vx (vstack_p P) = Some vs"
      "HStack_hybrid_forward F (gl_hstack L) hx (hstack_p P) = Some hs"
      "Conv2D_hybrid_forward F (gl_vtoh L) vs (vtoh_p P) = Some vh"
      "broadcast_add hs vh = Some hstack"
      "split vs = Some (vps, vpt)"
      "split hstack = Some (hps, hpt)"
      "gate F vps vpt = Some vo"
      "gate F hps hpt = Some gt"
      "Conv2D_hybrid_forward F (gl_htoh L) gt (htoh_p P) = Some pre"
      "residual_connection L hx pre = Some ho"
      "concat_nd vo ho = Some out"
      by (rule GatedLayer_hybrid_forwardE)
    from o' obtain vy hy vs' hs' vh' hstack' vps' vpt' hps' hpt' vo' gt' pre' ho' where
      e': "split y = Some (vy, hy)"
      "VStack_hybrid_forward F (gl_vstack L) vy (vstack_p P) = Some vs'"
      "HStack_hybrid_forward F (gl_hstack L) hy (hstack_p P) = Some hs'"
      "Conv2D_hybrid_forward F (gl_vtoh L) vs' (vtoh_p P) = Some vh'"
      "broadcast_add hs' vh' = Some hstack'"
      "split vs' = Some (vps', vpt')"
      "split hstack' = Some (hps', hpt')"
      "gate F vps' vpt' = Some vo'"
      "gate F hps' hpt' = Some gt'"
      "Conv2D_hybrid_forward F (gl_htoh L) gt' (htoh_p P) = Some pre'"
      "residual_connection L hy pre' = Some ho'"
      "concat_nd vo' ho' = Some out'"
      by (rule GatedLayer_hybrid_forwardE)
    have sp: "agree_on (\<lambda>c. if c < dim_c x div 2 then Rv else Rh) vx vy \<and>
        agree_on (\<lambda>c. if c + dim_c x div 2 < dim_c x div 2 then Rv else Rh) hx hy"
      using rel_option_SomeD[OF split_agree[OF x] e(1) e'(1)] by simp
    have vxa: "agree_on (\<lambda>c. Rv) vx vy"
      by (rule agree_on_mono[OF conjunct1[OF sp]]) (simp add: split_shape(2)[OF e(1)])
    have hxa: "agree_on (\<lambda>c. Rh) hx hy"
      by (rule agree_on_mono[OF conjunct2[OF sp]]) simp
    have vsa: "agree_on (\<lambda>c. Rv') vs vs'"
      by (rule agree_on_mono[OF rel_option_SomeD[OF VStack_hybrid_forward_agree[OF vxa] e(2) e'(2)]])
         (unfold Ls, erule window_in_oc[OF wv])
    have hsa: "agree_on (\<lambda>c. Rh') hs hs'"
      by (rule agree_on_mono[OF rel_option_SomeD[OF HStack_hybrid_forward_agree[OF hxa] e(3) e'(3)]])
         (unfold Ls, erule window_in_oc[OF wh])
    have vha: "agree_on (\<lambda>c. Rh') vh vh'"
      by (rule agree_on_mono[OF rel_option_SomeD[OF Conv2D_hybrid_forward_agree[OF vsa] e(4) e'(4)]])
         (unfold Ls window_1x1, simp add: sub)
    have dvs: "shape vs = (dim_n x, ch * 2, dim_h x, dim_w x)"
      using VStack_hybrid_forward_shape(1-4)[OF e(2)] split_shape(1-4)[OF e(1)]
      by (simp add: shape_tuple Ls VStack_sel)
    have dhs: "shape hs = (dim_n x, ch * 2, dim_h x, dim_w x)"
      using HStack_hybrid_forward_shape(1-4)[OF e(3)] split_shape(5-8)[OF e(1)]
      by (simp add: shape_tuple Ls HStack_sel)
    have dvh: "shape vh = (dim_n x, ch * 2, dim_h x, dim_w x)"
      using Conv1x1_shape[OF e(4)[unfolded Ls]] dvs by (simp add: shape_tuple)
    have "agree_on (\<lambda>c i j. Rh' i j \<and> Rh' i j) hstack hstack'"
      using rel_option_SomeD[OF broadcast_op_agree_same_shape[OF hsa vha, of "(+)"]
          e(5)[unfolded broadcast_add_def] e'(5)[unfolded broadcast_add_def]] dhs dvh by simp
    then have hsta: "agree_on (\<lambda>c. Rh') hstack hstack'" by simp
    have "agree_on (\<lambda>c. Rv') vps vps' \<and> agree_on (\<lambda>c. Rv') vpt vpt'"
      using rel_option_SomeD[OF split_agree[OF vsa] e(6) e'(6)] by simp
    then have vpa: "agree_on (\<lambda>c. Rv') vps vps'" "agree_on (\<lambda>c. Rv') vpt vpt'" by simp_all
    have "agree_on (\<lambda>c. Rh') hps hps' \<and> agree_on (\<lambda>c. Rh') hpt hpt'"
      using rel_option_SomeD[OF split_agree[OF hsta] e(7) e'(7)] by simp
    then have hpa: "agree_on (\<lambda>c. Rh') hps hps'" "agree_on (\<lambda>c. Rh') hpt hpt'" by simp_all
    have svp: "shape vps = shape vpt" using split_shape[OF e(6)] by (simp add: shape_def)
    have shp: "shape hps = shape hpt" using split_shape[OF e(7)] by (simp add: shape_def)
    have voa: "agree_on (\<lambda>c. Rv') vo vo'"
      using rel_option_SomeD[OF gate_agree[OF vpa svp] e(8) e'(8)] .
    have gta: "agree_on (\<lambda>c. Rh') gt gt'"
      using rel_option_SomeD[OF gate_agree[OF hpa shp] e(9) e'(9)] .
    have prea: "agree_on (\<lambda>c. Rh') pre pre'"
      by (rule agree_on_mono[OF rel_option_SomeD[OF Conv2D_hybrid_forward_agree[OF gta] e(10) e'(10)]])
         (unfold Ls window_1x1, simp)
    have "ho = pre" "ho' = pre'"
      using e(11) e'(11) Ls(5) by (simp_all add: residual_connection_def)
    then have hoa: "agree_on (\<lambda>c. Rh') ho ho'" using prea by simp
    have "dim_c vps = ch" using split_shape(2)[OF e(6)] dvs by (simp add: shape_tuple)
    then have cvo: "dim_c vo = ch" using gate_shape[OF e(8) svp] by (simp add: shape_def)
    have "agree_on (\<lambda>c. if c < dim_c vo then Rv' else Rh') out out'"
      using rel_option_SomeD[OF concat_agree[OF voa hoa] e(12) e'(12)] .
    then show "agree_on (\<lambda>c. if c < ch then Rv' else Rh') out out'"
      by (simp add: cvo)
  qed
qed

lemma VStack_window_A:
  assumes "r \<le> i"
  shows "window_in (VStack C ks (1, 1) (1, 1) g None ub inc ''A'') (\<lambda>c. prior i j c) 0 r s"
  using assms by (auto simp: window_in_def VStack_sel prior_def)

lemma HStack_window_A:
  assumes "upto_pos i j 0 r s"
  shows "window_in (HStack C kl (1, 1) (1, 1) g None ub inc ''A'') (\<lambda>c. prior i j c) 0 r s"
  using assms by (auto simp: window_in_def HStack_sel prior_def upto_pos_def)

lemma VStack_window_B:
  assumes "r \<le> i" "kt \<noteq> ''A''"
  shows "window_in (VStack C ks (1, 1) (1, 1) g None ub inc kt) (\<lambda>c r s. r \<le> i) 0 r s"
  using assms by (auto simp: window_in_def VStack_sel)

lemma HStack_window_B:
  assumes "upto_pos i j 0 r s" "kt \<noteq> ''A''"
  shows "window_in (HStack C kl (1, 1) (1, 1) g None ub inc kt) (\<lambda>c. upto_pos i j c) 0 r s"
  using assms by (auto simp: window_in_def HStack_sel upto_pos_def)

lemma GatedLayer_A_causal:
  assumes "agree_on (prior i j) x y"
  shows "rel_option (agree_on (streams ch i j))
     (GatedLayer_hybrid_forward F (GatedLayer ch ks (1, 1) (1, 1) g ub inc ''A'' False) x P)
     (GatedLayer_hybrid_forward F (GatedLayer ch ks (1, 1) (1, 1) g ub inc ''A'' False) y P)"
proof -
  have a: "agree_on (\<lambda>c. if c < dim_c x div 2 then prior i j 0 else prior i j 0) x y"
    by (rule agree_on_mono[OF assms]) (simp add: prior_def)
  have "rel_option (agree_on (\<lambda>c. if c < ch then (\<lambda>r s. r \<le> i) else upto_pos i j 0))
     (GatedLayer_hybrid_forward F (GatedLayer ch ks (1, 1) (1, 1) g ub inc ''A'' False) x P)
     (GatedLayer_hybrid_forward F (GatedLayer ch ks (1, 1) (1, 1) g ub inc ''A'' False) y P)"
  proof (rule GatedLayer_causal[OF a])
    fix r s :: nat
    assume "r \<le> i"
    then have "window_in (VStack (ch * 2) ks (1, 1) (1, 1) g None ub inc ''A'') (\<lambda>c. prior i j c) 0 r s"
      by (rule VStack_window_A)
    then show "window_in (VStack (ch * 2) ks (1, 1) (1, 1) g None ub inc ''A'') (\<lambda>c. prior i j 0) 0 r s"
      by (simp add: window_in_def prior_def)
  next
    fix r s :: nat
    assume "upto_pos i j 0 r s"
    then have "window_in (HStack (ch * 2) (snd ks) (1, 1) (1, 1) g None ub inc ''A'') (\<lambda>c. prior i j c) 0 r s"
      by (rule HStack_window_A)
    then show "window_in (HStack (ch * 2) (snd ks) (1, 1) (1, 1) g None ub inc ''A'') (\<lambda>c. prior i j 0) 0 r s"
      by (simp add: window_in_def prior_def)
  next
    fix r s :: nat
    assume "upto_pos i j 0 r s"
    then show "r \<le> i" by (auto simp: upto_pos_def)
  qed
  then show ?thesis
    by (rule rel_option_weaken) (auto elim!: agree_on_mono simp: streams_def upto_pos_def)
qed

lemma GatedLayer_B_causal:
  assumes "agree_on (streams (dim_c x div 2) i j) x y" "kt \<noteq> ''A''"
  shows "rel_option (agree_on (streams ch i j))
     (GatedLayer_hybrid_forward F (GatedLayer ch ks (1, 1) (1, 1) g ub inc kt False) x P)
     (GatedLayer_hybrid_forward F (GatedLayer ch ks (1, 1) (1, 1) g ub inc kt False) y P)"
proof -
  have a: "agree_on (\<lambda>c. if c < dim_c x div 2 then (\<lambda>r s. r \<le> i) else upto_pos i j 0) x y"
    by (rule agree_on_mono[OF assms(1)]) (auto simp: streams_def upto_pos_def split: if_splits)
  have "rel_option (agree_on (\<lambda>c. if c < ch then (\<lambda>r s. r \<le> i) else upto_pos i j 0))
     (GatedLayer_hybrid_forward F (GatedLayer ch ks (1, 1) (1, 1) g ub inc kt False) x P)
     (GatedLayer_hybrid_forward F (GatedLayer ch ks (1, 1) (1, 1) g ub inc kt False) y P)"
  proof (rule GatedLayer_causal[OF a])
    fix r s :: nat
    assume "r \<le> i"
    then show "window_in (VStack (ch * 2) ks (1, 1) (1, 1) g None ub inc kt) (\<lambda>c r s. r \<le> i) 0 r s"
      using assms(2) by (rule VStack_window_B)
  next
    fix r s :: nat
    assume "upto_pos i j 0 r s"
    then have "window_in (HStack (ch * 2) (snd ks) (1, 1) (1, 1) g None ub inc kt) (\<lambda>c. upto_pos i j c) 0 r s"
      using assms(2) by (rule HStack_window_B)
    then show "window_in (HStack (ch * 2) (snd ks) (1, 1) (1, 1) g None ub inc kt) (\<lambda>c. upto_pos i j 0) 0 r s"
      by (simp add: window_in_def upto_pos_def)
  next
    fix r s :: nat
    assume "upto_pos i j 0 r s"
    then show "r \<le> i" by (auto simp: upto_pos_def)
  qed
  then show ?thesis
    by (rule rel_option_weaken) (auto elim!: agree_on_mono simp: streams_def upto_pos_def)
qed

lemma rel_option_bind_plain:
  assumes "rel_option A m m'"
    and "\<And>a b. A a b \<Longrightarrow> rel_option B (f a) (f' b)"
  shows "rel_option B (m \<bind> f) (m' \<bind> f')"
  using assms by (cases m; cases m') simp_all

lemma Sequential_forward_kinds:
  assumes "Sequential_forward F bs ps x = Some out"
  shows "list_all2 (\<lambda>b p. (\<exists>L q. b = ConvBlock L \<and> p = ConvParams q) \<or>
                           (\<exists>L P. b = GatedBlock L \<and> p = GatedParams P)) bs ps"
  using assms
proof (induction F bs ps x rule: Sequential_forward.induct)
  case (2 F b bs p ps x)
  then obtain y where y: "block_forward F b p x = Some y"
    and r: "Sequential_forward F bs ps y = Some out"
    by (auto split: bind_splits)
  have "(\<exists>L q. b = ConvBlock L \<and> p = ConvParams q) \<or> (\<exists>L P. b = GatedBlock L \<and> p = GatedParams P)"
    using y by (cases b; cases p) simp_all
  then show ?case using "2.IH"[OF y r] by simp
qed simp_all

lemma net_params_kinds:
  assumes "net F ps x = Some out"
  obtains p0 P1 P2 P3 P4 P5 P6 p7 where
    "ps = [ConvParams p0, GatedParams P1, GatedParams P2, GatedParams P3, GatedParams P4,
           GatedParams P5, GatedParams P6, ConvParams p7]"
  using Sequential_forward_kinds[OF assms[unfolded net_def]]
  by (auto simp: net_blocks_def list_all2_Cons1)

lemma conv_1x1_prior:
  assumes "agree_on (prior i j) x y"
  shows "rel_option (agree_on (prior i j))
    (Conv2D_hybrid_forward F (Conv2D ch (1, 1) (1, 1) (0, 0) (1, 1) g act ub inc) x p)
    (Conv2D_hybrid_forward F (Conv2D ch (1, 1) (1, 1) (0, 0) (1, 1) g act ub inc) y p)"
  by (rule rel_option_weaken[OF Conv2D_hybrid_forward_agree[OF assms]], erule agree_on_mono)
     (unfold window_1x1, simp add: prior_def)

lemma conv_1x1_streams:
  assumes "agree_on (streams m i j) x y \<and> dim_c x = 2 * m"
  shows "rel_option (agree_on (at_pos i j))
    (Conv2D_hybrid_forward F (Conv2D ch (1, 1) (1, 1) (0, 0) (1, 1) g act ub inc) x p)
    (Conv2D_hybrid_forward F (Conv2D ch (1, 1) (1, 1) (0, 0) (1, 1) g act ub inc) y p)"
  by (rule rel_option_weaken[OF Conv2D_hybrid_forward_agree[OF conjunct1[OF assms]]], erule agree_on_mono)
     (unfold window_1x1, simp add: streams_def at_pos_def)

lemma gated_A_streams:
  assumes "agree_on (prior i j) x y"
  shows "rel_option (\<lambda>u v. agree_on (streams ch i j) u v \<and> dim_c u = 2 * ch)
     (GatedLayer_hybrid_forward F (GatedLayer ch ks (1, 1) (1, 1) g ub inc ''A'' False) x P)
     (GatedLayer_hybrid_forward F (GatedLayer ch ks (1, 1) (1, 1) g ub inc ''A'' False) y P)"
proof (rule rel_option_weaken[OF GatedLayer_A_causal[OF assms]])
  fix u v
  assume "GatedLayer_hybrid_forward F (GatedLayer ch ks (1, 1) (1, 1) g ub inc ''A'' False) x P = Some u"
    and "agree_on (streams ch i j) u v"
  then show "agree_on (streams ch i j) u v \<and> dim_c u = 2 * ch"
    using GatedLayer_shape(4) by fastforce
qed

lemma gated_B_streams:
  assumes "agree_on (streams m i j) x y \<and> dim_c x = 2 * m" "kt \<noteq> ''A''"
  shows "rel_option (\<lambda>u v. agree_on (streams ch i j) u v \<and> dim_c u = 2 * ch)
     (GatedLayer_hybrid_forward F (GatedLayer ch ks (1, 1) (1, 1) g ub inc kt False) x P)
     (GatedLayer_hybrid_forward F (GatedLayer ch ks (1, 1) (1, 1) g ub inc kt False) y P)"
proof -
  have a: "agree_on (streams (dim_c x div 2) i j) x y" using assms(1) by simp
  show ?thesis
  proof (rule rel_option_weaken[OF GatedLayer_B_causal[OF a assms(2)]])
    fix u v
    assume "GatedLayer_hybrid_forward F (GatedLayer ch ks (1, 1) (1, 1) g ub inc kt False) x P = Some u"
      and "agree_on (streams ch i j) u v"
    then show "agree_on (streams ch i j) u v \<and> dim_c u = 2 * ch"
      using GatedLayer_shape(4) by fastforce
  qed
qed

lemma net_causal:
  assumes "agree_on (prior i j) x y"
  shows "rel_option (agree_on (at_pos i j)) (net F ps x) (net F ps y)"
proof (cases "net F ps x = None \<and> net F ps y = None")
  case True
  then show ?thesis by simp
next
  case False
  then obtain z out where "net F ps z = Some out" by auto
  then obtain p0 P1 P2 P3 P4 P5 P6 p7 where
    ps: "ps = [ConvParams p0, GatedParams P1, GatedParams P2, GatedParams P3, GatedParams P4,
           GatedParams P5, GatedParams P6, ConvParams p7]"
    by (rule net_params_kinds)
  have B: "''B'' \<noteq> ''A''" by simp
  show ?thesis
    unfolding net_def net_blocks_def ps
    apply (simp only: Sequential_forward.simps block_forward.simps)
    apply (rule rel_option_bind_plain[OF conv_1x1_prior[OF assms]])
    apply (simp only: Sequential_forward.simps block_forward.simps)
    apply (rule rel_option_bind_plain[OF gated_A_streams], assumption)
    apply (simp only: Sequential_forward.simps block_forward.simps)
    apply (rule rel_option_bind_plain[OF gated_B_streams[OF _ B]], assumption)
    apply (simp only: Sequential_forward.simps block_forward.simps)
    apply (rule rel_option_bind_plain[OF gated_B_streams[OF _ B]], assumption)
    apply (simp only: Sequential_forward.simps block_forward.simps)
    apply (rule rel_option_bind_plain[OF gated_B_streams[OF _ B]], assumption)
    apply (simp only: Sequential_forward.simps block_forward.simps)
    apply (rule rel_option_bind_plain[OF gated_B_streams[OF _ B]], assumption)
    apply (simp only: Sequential_forward.simps block_forward.simps)
    apply (rule rel_option_bind_plain[OF gated_B_streams[OF _ B]], assumption)
    apply (simp only: Sequential_forward.simps block_forward.simps)
    apply (rule rel_option_bind_plain[OF conv_1x1_streams], assumption)
    apply simp
    done
qed

section \<open>Two runs of the completion loop\<close>

text \<open>
  The invariant of the completion on two buffers: when the loop reaches \<open>(i, j)\<close> the
  buffers agree on every position before \<open>(i, j)\<close>. The forward passes then agree at
  \<open>(i, j)\<close>, and the assignment extends the agreement by that position. A row of 28
  columns that is finished makes the buffers agree before \<open>(i + 1, 0)\<close>.
\<close>

lemma completion_step_ni:
  fixes nt :: "'a ndarray \<Rightarrow> 'a ndarray option"
  assumes nc: "\<And>x y. agree_on (prior i j) x y \<Longrightarrow> rel_option (agree_on (at_pos i j)) (nt x) (nt y)"
    and a: "agree_on (prior i j) bx by" and c: "dim_c bx = 1"
  shows "rel_option (\<lambda>u v. agree_on (prior i (Suc j)) u v \<and> shape u = shape bx)
           (completion_step nt i bx j) (completion_step nt i by j)"
  unfolding completion_step_def
proof (rule rel_option_bind[OF nc[OF a]])
  fix y y' :: "'a ndarray"
  assume yy: "agree_on (at_pos i j) y y'"
  have db: "dim_n by = dim_n bx" "dim_c by = dim_c bx" "dim_h by = dim_h bx" "dim_w by = dim_w bx"
    using agree_on_dims[OF a] by simp_all
  have dy: "dim_n y' = dim_n y" "dim_c y' = dim_c y" "dim_h y' = dim_h y" "dim_w y' = dim_w y"
    using agree_on_dims[OF yy] by simp_all
  have ey: "n < dim_n y \<Longrightarrow> 0 < dim_c y \<Longrightarrow> i < dim_h y \<Longrightarrow> j < dim_w y \<Longrightarrow>
      elem y n 0 i j = elem y' n 0 i j" for n
    using agree_on_elem[OF yy, of n 0 i j] by (simp add: at_pos_def)
  have eb: "n < dim_n bx \<Longrightarrow> r < dim_h bx \<Longrightarrow> s < dim_w bx \<Longrightarrow> r < i \<or> (r = i \<and> s < j) \<Longrightarrow>
      elem bx n 0 r s = elem by n 0 r s" for n r s
    using agree_on_elem[OF a, of n 0 r s] c by (simp add: prior_def)
  show "rel_option (\<lambda>u v. agree_on (prior i (Suc j)) u v \<and> shape u = shape bx)
          (getitem_0 y i j \<bind> setitem_0 bx i j) (getitem_0 y' i j \<bind> setitem_0 by i j)"
    using c ey eb
    by (auto simp: getitem_0_def setitem_0_def db dy agree_on_def shape_def in_range_def
        prior_def bidx_def less_Suc_eq)
qed

lemma row_loop_ni:
  fixes nt :: "'a ndarray \<Rightarrow> 'a ndarray option"
  assumes nc: "\<And>j x y. agree_on (prior i j) x y \<Longrightarrow> rel_option (agree_on (at_pos i j)) (nt x) (nt y)"
    and a: "agree_on (prior i j) bx by" and c: "dim_c bx = 1"
  shows "rel_option (\<lambda>u v. agree_on (prior i (j + n)) u v \<and> shape u = shape bx)
           (for_each [j..<j + n] (completion_step nt i) bx)
           (for_each [j..<j + n] (completion_step nt i) by)"
  using a c
proof (induction n arbitrary: j bx "by")
  case 0
  then show ?case by simp
next
  case (Suc n)
  have l: "[j..<j + Suc n] = j # [Suc j..<Suc j + n]" by (simp add: upt_conv_Cons)
  show ?case
    unfolding l for_each.simps
  proof (rule rel_option_bind[OF completion_step_ni[OF nc Suc.prems]])
    fix u v :: "'a ndarray"
    assume uv: "agree_on (prior i (Suc j)) u v \<and> shape u = shape bx"
    then have cu: "dim_c u = 1" using Suc.prems(2) by (simp add: shape_def)
    show "rel_option (\<lambda>u v. agree_on (prior i (j + Suc n)) u v \<and> shape u = shape bx)
        (for_each [Suc j..<Suc j + n] (completion_step nt i) u)
        (for_each [Suc j..<Suc j + n] (completion_step nt i) v)"
      by (rule rel_option_weaken[OF Suc.IH[OF conjunct1[OF uv] cu]]) (use uv in simp)
  qed
qed

lemma rows_loop_ni:
  fixes nt :: "'a ndarray \<Rightarrow> 'a ndarray option"
  assumes nc: "\<And>i j x y. agree_on (prior i j) x y \<Longrightarrow> rel_option (agree_on (at_pos i j)) (nt x) (nt y)"
    and a: "agree_on (prior i 0) bx by" and c: "dim_c bx = 1" and w: "dim_w bx = 28"
  shows "rel_option (\<lambda>u v. agree_on (prior (i + k) 0) u v \<and> shape u = shape bx)
           (for_each [i..<i + k] (\<lambda>r i. for_each [0..<28] (completion_step nt i) r) bx)
           (for_each [i..<i + k] (\<lambda>r i. for_each [0..<28] (completion_step nt i) r) by)"
  using a c w
proof (induction k arbitrary: i bx "by")
  case 0
  then show ?case by simp
next
  case (Suc k)
  have l: "[i..<i + Suc k] = i # [Suc i..<Suc i + k]" by (simp add: upt_conv_Cons)
  have r: "rel_option (\<lambda>u v. agree_on (prior i (0 + 28)) u v \<and> shape u = shape bx)
      (for_each [0..<0 + 28] (completion_step nt i) bx)
      (for_each [0..<0 + 28] (completion_step nt i) by)"
    by (rule row_loop_ni[OF nc Suc.prems(1,2)])
  show ?case
    unfolding l for_each.simps
  proof (rule rel_option_bind[OF r[simplified]])
    fix u v :: "'a ndarray"
    assume uv: "agree_on (prior i 28) u v \<and> shape u = shape bx"
    then have cu: "dim_c u = 1" and wu: "dim_w u = 28"
      using Suc.prems(2,3) by (simp_all add: shape_def)
    have au: "agree_on (prior (Suc i) 0) u v"
      by (rule agree_on_mono[OF conjunct1[OF uv]]) (auto simp: prior_def wu)
    show "rel_option (\<lambda>u v. agree_on (prior (i + Suc k) 0) u v \<and> shape u = shape bx)
        (for_each [Suc i..<Suc i + k] (\<lambda>r i. for_each [0..<28] (completion_step nt i) r) u)
        (for_each [Suc i..<Suc i + k] (\<lambda>r i. for_each [0..<28] (completion_step nt i) r) v)"
      by (rule rel_option_weaken[OF Suc.IH[OF au cu wu]]) (use uv in simp)
  qed
qed

lemma completion_loop_ni:
  fixes nt :: "'a ndarray \<Rightarrow> 'a ndarray option"
  assumes nc: "\<And>i j x y. agree_on (prior i j) x y \<Longrightarrow> rel_option (agree_on (at_pos i j)) (nt x) (nt y)"
    and s: "shape x = (n, 1, 28, 28)" and a: "agree_on (rows_above 14) x y"
  shows "rel_option (agree_on everywhere) (completion_loop nt x) (completion_loop nt y)"
proof -
  have d: "dim_c x = 1" "dim_w x = 28" "dim_h x = 28" using s by (simp_all add: shape_tuple)
  have p: "agree_on (prior 14 0) x y"
    by (rule agree_on_mono[OF a]) (simp add: prior_def rows_above_def)
  have "rel_option (\<lambda>u v. agree_on (prior (14 + 14) 0) u v \<and> shape u = shape x)
      (for_each [14..<14 + 14] (\<lambda>r i. for_each [0..<28] (completion_step nt i) r) x)
      (for_each [14..<14 + 14] (\<lambda>r i. for_each [0..<28] (completion_step nt i) r) y)"
    by (rule rows_loop_ni[OF nc p d(1,2)])
  then have "rel_option (\<lambda>u v. agree_on (prior 28 0) u v \<and> shape u = shape x)
      (completion_loop nt x) (completion_loop nt y)"
    by (simp add: completion_loop_def)
  then show ?thesis
  proof (rule rel_option_weaken)
    fix u v :: "'a ndarray"
    assume uv: "agree_on (prior 28 0) u v \<and> shape u = shape x"
    then have "dim_h u = 28" using d by (simp add: shape_def)
    then show "agree_on everywhere u v"
      using uv by (auto elim!: agree_on_mono simp: prior_def)
  qed
qed

lemma completion_step_returns:
  fixes nt :: "'a ndarray \<Rightarrow> 'a ndarray option"
  assumes "\<exists>y. nt r = Some y \<and> shape y = shape r" "0 < dim_c r" "i < dim_h r" "j < dim_w r"
  shows "\<exists>r'. completion_step nt i r j = Some r' \<and> shape r' = shape r"
  using assms
  by (auto simp: completion_step_def getitem_0_def setitem_0_def shape_def)

lemma row_loop_returns:
  fixes nt :: "'a ndarray \<Rightarrow> 'a ndarray option"
  assumes nt: "\<And>r. shape r = s \<Longrightarrow> \<exists>y. nt r = Some y \<and> shape y = s"
    and "shape r = s" "0 < dim_c r" "i < dim_h r" "\<forall>j\<in>set js. j < dim_w r"
  shows "\<exists>r'. for_each js (completion_step nt i) r = Some r' \<and> shape r' = s"
  using assms(2-)
proof (induction js arbitrary: r)
  case Nil
  then show ?case by simp
next
  case (Cons j js)
  have "\<exists>y. nt r = Some y \<and> shape y = shape r" using nt[OF Cons.prems(1)] Cons.prems(1) by simp
  then obtain r1 where r1: "completion_step nt i r j = Some r1" and s1: "shape r1 = shape r"
    using completion_step_returns[of nt r i j] Cons.prems by auto
  have d: "dim_c r1 = dim_c r" "dim_h r1 = dim_h r" "dim_w r1 = dim_w r"
    using s1 by (simp_all add: shape_def)
  have "\<exists>r'. for_each js (completion_step nt i) r1 = Some r' \<and> shape r' = s"
    by (rule Cons.IH) (use Cons.prems s1 d in auto)
  then show ?case using r1 by simp
qed

lemma rows_loop_returns:
  fixes nt :: "'a ndarray \<Rightarrow> 'a ndarray option"
  assumes nt: "\<And>r. shape r = s \<Longrightarrow> \<exists>y. nt r = Some y \<and> shape y = s"
    and "shape r = s" "0 < dim_c r" "\<forall>i\<in>set rows. i < dim_h r" "\<forall>j\<in>set js. j < dim_w r"
  shows "\<exists>r'. for_each rows (\<lambda>r i. for_each js (completion_step nt i) r) r = Some r' \<and> shape r' = s"
  using assms(2-)
proof (induction rows arbitrary: r)
  case Nil
  then show ?case by simp
next
  case (Cons i rows)
  obtain r1 where r1: "for_each js (completion_step nt i) r = Some r1" and s1: "shape r1 = s"
    using row_loop_returns[of s nt r i js] nt Cons.prems by auto
  have d: "dim_c r1 = dim_c r" "dim_h r1 = dim_h r" "dim_w r1 = dim_w r"
    using s1 Cons.prems(1) by (auto simp: shape_def)
  have "\<exists>r'. for_each rows (\<lambda>r i. for_each js (completion_step nt i) r) r1 = Some r' \<and> shape r' = s"
    by (rule Cons.IH) (use Cons.prems s1 d in auto)
  then show ?case using r1 by simp
qed

lemma completion_loop_returns:
  fixes nt :: "'a ndarray \<Rightarrow> 'a ndarray option"
  assumes nt: "\<And>r. shape r = shape x \<Longrightarrow> \<exists>y. nt r = Some y \<and> shape y = shape x"
    and "0 < dim_c x" "28 \<le> dim_h x" "28 \<le> dim_w x"
  shows "\<exists>r'. completion_loop nt x = Some r' \<and> shape r' = shape x"
  unfolding completion_loop_def
  by (rule rows_loop_returns[OF nt]) (use assms(2-) in auto)

lemma net_completion_returns:
  assumes "net_params_ok ps" "F_Activation F ''relu'' \<noteq> None" "shape x = (n, 1, 28, 28)"
  shows "\<exists>r'. completion_loop (net F ps) x = Some r' \<and> shape r' = shape x"
proof (rule completion_loop_returns)
  fix r :: "'a ndarray"
  assume "shape r = shape x"
  then have d: "dim_n r = n" "dim_c r = 1" "dim_h r = 28" "dim_w r = 28"
    using assms(3) by (simp_all add: shape_tuple)
  show "\<exists>y. net F ps r = Some y \<and> shape y = shape x"
    using net_returns[OF assms(1,2), of r] d assms(3) by simp
qed (use assms(3) in \<open>simp_all add: shape_tuple\<close>)

lemma loss_broadcast_formula:
  fixes x :: "'a::{zero,plus,minus,power} ndarray"
  assumes "loss F ps x = Some l"
  shows "\<exists>y N C H W. net F ps x = Some y \<and>
      bdim (dim_n y) (dim_n x) = Some N \<and> bdim (dim_c y) (dim_c x) = Some C \<and>
      bdim (dim_h y) (dim_h x) = Some H \<and> bdim (dim_w y) (dim_w x) = Some W \<and>
      len l = N \<and>
      (\<forall>n. elem1 l n =
         sum_upt (\<lambda>c. sum_upt (\<lambda>i. sum_upt (\<lambda>j.
           (elem y (bidx (dim_n y) n) (bidx (dim_c y) c) (bidx (dim_h y) i) (bidx (dim_w y) j) -
            elem x (bidx (dim_n x) n) (bidx (dim_c x) c) (bidx (dim_h x) i) (bidx (dim_w x) j)) ^ 2)
           W) H) C)"
  using assms
  by (auto simp: loss_def broadcast_sub_def broadcast_op_def sum_axis123_def tmap_def
      split: bind_splits)

lemma loss_same_shape_formula:
  fixes x :: "'a::{zero,plus,minus,power} ndarray"
  assumes "loss F ps x = Some l" "net F ps x = Some y" "shape y = shape x"
  shows "len l = dim_n x \<and>
      (\<forall>n<dim_n x. elem1 l n =
         sum_upt (\<lambda>c. sum_upt (\<lambda>i. sum_upt (\<lambda>j. (elem y n c i j - elem x n c i j) ^ 2)
           (dim_w x)) (dim_h x)) (dim_c x))"
proof -
  have dy: "dim_n y = dim_n x" "dim_c y = dim_c x" "dim_h y = dim_h x" "dim_w y = dim_w x"
    using assms(3) by (simp_all add: shape_def)
  from loss_broadcast_formula[OF assms(1)] assms(2)
  have l: "len l = dim_n x"
    and e: "\<And>n. elem1 l n =
         sum_upt (\<lambda>c. sum_upt (\<lambda>i. sum_upt (\<lambda>j.
           (elem y (bidx (dim_n x) n) (bidx (dim_c x) c) (bidx (dim_h x) i) (bidx (dim_w x) j) -
            elem x (bidx (dim_n x) n) (bidx (dim_c x) c) (bidx (dim_h x) i) (bidx (dim_w x) j)) ^ 2)
           (dim_w x)) (dim_h x)) (dim_c x)"
    by (auto simp: dy)
  show ?thesis
  proof (intro conjI allI impI)
    fix n assume "n < dim_n x"
    then show "elem1 l n =
         sum_upt (\<lambda>c. sum_upt (\<lambda>i. sum_upt (\<lambda>j. (elem y n c i j - elem x n c i j) ^ 2)
           (dim_w x)) (dim_h x)) (dim_c x)"
      unfolding e by (intro sum_upt_cong) (simp add: bidx_id)
  qed (rule l)
qed

lemma net_returns_channels:
  assumes "Sequential_params_ok net_blocks (dim_c x) ps" "F_Activation F ''relu'' \<noteq> None"
    "0 < dim_h x" "0 < dim_w x"
  shows "\<exists>y. net F ps x = Some y \<and> shape y = (dim_n x, 1, dim_h x, dim_w x)"
proof -
  have u: "list_all (unit_stride_block F) net_blocks"
    using assms(2) by (auto simp: net_blocks_def Conv2D_sel intro!: exI)
  have "block_channels (last net_blocks) = 1" "net_blocks \<noteq> []"
    by (simp_all add: net_blocks_def Conv2D_sel)
  then show ?thesis
    using Sequential_returns[OF u assms(1,3,4)] by (auto simp: net_def shape_tuple)
qed

lemma loss_returns:
  fixes x :: "'a::{zero,plus,minus,power} ndarray"
  assumes "Sequential_params_ok net_blocks (dim_c x) ps" "F_Activation F ''relu'' \<noteq> None"
    "0 < dim_h x" "0 < dim_w x"
  shows "\<exists>y l. net F ps x = Some y \<and> shape y = (dim_n x, 1, dim_h x, dim_w x) \<and>
     loss F ps x = Some l"
proof -
  obtain y where y: "net F ps x = Some y" and s: "shape y = (dim_n x, 1, dim_h x, dim_w x)"
    using net_returns_channels[OF assms] by auto
  have "bdim (dim_n y) (dim_n x) \<noteq> None" "bdim (dim_c y) (dim_c x) \<noteq> None"
    "bdim (dim_h y) (dim_h x) \<noteq> None" "bdim (dim_w y) (dim_w x) \<noteq> None"
    using s by (simp_all add: shape_tuple bdim_def)
  then have "\<exists>d. broadcast_op (-) y x = Some d"
    by (auto simp: broadcast_op_def)
  then show ?thesis
    using y s by (auto simp: loss_def broadcast_sub_def)
qed

lemma F_int_relu: "F_Activation F_int ''relu'' \<noteq> None"
  by (simp add: F_int_def)

lemma const_net_params_ok: "net_params_ok const_net_params"
  by (simp add: net_params_ok_def net_blocks_def const_net_params_def gated_params_ok_def
      conv_args_ok_def GatedLayer_sel VStack_sel HStack_sel Conv2D_sel const_params_def
      const_gated_params_def const_array_def shape_def)

lemma const_net_params2_ok: "Sequential_params_ok net_blocks 2 const_net_params2"
  by (simp add: net_blocks_def const_net_params2_def const_net_params_def gated_params_ok_def
      conv_args_ok_def GatedLayer_sel VStack_sel HStack_sel Conv2D_sel const_params_def
      const_gated_params_def const_array_def shape_def)


lemma dims_batches:
  "dim_n batch_a = 2" "dim_c batch_a = Suc 0" "dim_h batch_a = 2" "dim_w batch_a = 2"
  "dim_n batch_b = 2" "dim_c batch_b = 2" "dim_h batch_b = 2" "dim_w batch_b = 2"
  by (simp_all add: batch_a_def batch_b_def)

lemma shape_mnist: "shape mnist_a = (1, 1, 28, 28)" "shape mnist_b = (1, 1, 28, 28)"
  by (simp_all add: mnist_a_def mnist_b_def const_array_def shape_def)

lemma mnist_upper_half: "agree_on (rows_above 14) mnist_a mnist_b"
  by (simp add: agree_on_def shape_mnist rows_above_def)
     (simp add: mnist_a_def mnist_b_def const_array_def)

lemma mnist_differ: "elem mnist_a 0 0 20 3 \<noteq> elem mnist_b 0 0 20 3"
  by (simp add: mnist_a_def mnist_b_def const_array_def)

lemma test_gated_returns:
  "GatedLayer_hybrid_forward F_int test_gated feat_a (test_gated_params 1) \<noteq> None"
  "GatedLayer_hybrid_forward F_int test_gated feat_b (test_gated_params 1) \<noteq> None"
proof -
  have "\<exists>out. GatedLayer_hybrid_forward F_int test_gated feat_a (test_gated_params 1) = Some out"
    unfolding test_gated_def
    by (rule GatedLayer_returns)
       (use test_gated_params_ok(1)[of 1] in \<open>simp_all add: dims_feats test_gated_def\<close>)
  then show "GatedLayer_hybrid_forward F_int test_gated feat_a (test_gated_params 1) \<noteq> None"
    by auto
  have "\<exists>out. GatedLayer_hybrid_forward F_int test_gated feat_b (test_gated_params 1) = Some out"
    unfolding test_gated_def
    by (rule GatedLayer_returns)
       (use test_gated_params_ok(1)[of 1] in \<open>simp_all add: dims_feats test_gated_def\<close>)
  then show "GatedLayer_hybrid_forward F_int test_gated feat_b (test_gated_params 1) \<noteq> None"
    by auto
qed

lemma feats_first_channel: "agree_on (first_channels (dim_c feat_a div 2)) feat_a feat_b"
  by (simp add: agree_on_def shape_def dims_feats first_channels_def in_range_def)
     (simp add: feat_a_def feat_b_def const_array_def)

lemma feats_differ: "elem feat_a 0 1 0 0 \<noteq> elem feat_b 0 1 0 0"
  by (simp add: feat_a_def feat_b_def const_array_def)

lemma dataflow_value:
  "\<exists>out. GatedLayer_dataflow F_int test_gated feat_a (test_gated_params 1) = Some out \<and>
     shape out = (1, 2, 1, 1) \<and> elem out 0 0 0 0 = 4 \<and> elem out 0 1 0 0 = 25"
  by (simp add: GatedLayer_dataflow_def dims_feats test_gated_def GatedLayer_sel
      masked_forward_unfold Conv2D_hybrid_forward_def Convolution_def conv_args_ok_def
      VStack_sel HStack_sel Conv2D_sel test_gated_params_def ones_params_def const_array_def
      shape_def channel_slice_def conv_out_dim_def broadcast_add_def broadcast_op_def bdim_def
      gated_activation_def residual_connection_def concat_nd_def conv_elem_def padded_def
      sum_upt_numeral bidx_def F_int_def feat_a_def)

section \<open>C1: the receptive field of the masked convolutions\<close>




section \<open>C2: the output is cut to the spatial size of the input\<close>

text \<open>
  C2. Whenever the forward pass of a vertical or of a horizontal stack returns, with any
  arguments of the block, the height and the width of the result are those of the input.
  With the strides and the dilation at their default \<open>(1, 1)\<close>, parameters that fit the
  block and the input, and an input of at least one row and one column, the forward pass
  does return.
\<close>

theorem forward_crops_to_input_size:
  "(VStack_hybrid_forward F L x p = Some out \<longrightarrow> dim_h out = dim_h x \<and> dim_w out = dim_w x) \<and>
   (HStack_hybrid_forward F L x p = Some out \<longrightarrow> dim_h out = dim_h x \<and> dim_w out = dim_w x) \<and>
   (conv_args_ok (VStack ch ks (1, 1) (1, 1) g None ub inc kt) (dim_c x) (weight p) (bias p) \<and>
    0 < dim_h x \<and> 0 < dim_w x \<longrightarrow>
      (\<exists>y. VStack_hybrid_forward F (VStack ch ks (1, 1) (1, 1) g None ub inc kt) x p = Some y)) \<and>
   (conv_args_ok (HStack ch kl (1, 1) (1, 1) g None ub inc kt) (dim_c x) (weight p) (bias p) \<and>
    0 < dim_h x \<and> 0 < dim_w x \<longrightarrow>
      (\<exists>y. HStack_hybrid_forward F (HStack ch kl (1, 1) (1, 1) g None ub inc kt) x p = Some y))"
proof (intro conjI impI)
  show "dim_h out = dim_h x" if "VStack_hybrid_forward F L x p = Some out"
    using VStack_hybrid_forward_shape(3)[OF that] .
  show "dim_w out = dim_w x" if "VStack_hybrid_forward F L x p = Some out"
    using VStack_hybrid_forward_shape(4)[OF that] .
  show "dim_h out = dim_h x" if "HStack_hybrid_forward F L x p = Some out"
    using HStack_hybrid_forward_shape(3)[OF that] .
  show "dim_w out = dim_w x" if "HStack_hybrid_forward F L x p = Some out"
    using HStack_hybrid_forward_shape(4)[OF that] .
  show "\<exists>y. VStack_hybrid_forward F (VStack ch ks (1, 1) (1, 1) g None ub inc kt) x p = Some y"
    if "conv_args_ok (VStack ch ks (1, 1) (1, 1) g None ub inc kt) (dim_c x) (weight p) (bias p) \<and>
        0 < dim_h x \<and> 0 < dim_w x"
    by (rule VStack_returns) (use that in simp_all)
  show "\<exists>y. HStack_hybrid_forward F (HStack ch kl (1, 1) (1, 1) g None ub inc kt) x p = Some y"
    if "conv_args_ok (HStack ch kl (1, 1) (1, 1) g None ub inc kt) (dim_c x) (weight p) (bias p) \<and>
        0 < dim_h x \<and> 0 < dim_w x"
    by (rule HStack_returns) (use that in simp_all)
qed

text \<open>
  The stacks \<open>test_vstack\<close> and \<open>test_hstack\<close> on the image \<open>img_a\<close> of one row and
  two columns: both return, and the result has one row and two columns.
\<close>

theorem forward_crops_to_input_size_witness:
  "VStack_hybrid_forward F_int test_vstack img_a test_params \<noteq> None \<and>
   HStack_hybrid_forward F_int test_hstack img_a test_params \<noteq> None \<and>
   conv_args_ok test_vstack (dim_c img_a) (weight test_params) (bias test_params) \<and>
   conv_args_ok test_hstack (dim_c img_a) (weight test_params) (bias test_params) \<and>
   0 < dim_h img_a \<and> 0 < dim_w img_a \<and>
   dim_h (the (VStack_hybrid_forward F_int test_vstack img_a test_params)) = dim_h img_a \<and>
   dim_w (the (VStack_hybrid_forward F_int test_vstack img_a test_params)) = dim_w img_a \<and>
   dim_h (the (HStack_hybrid_forward F_int test_hstack img_a test_params)) = dim_h img_a \<and>
   dim_w (the (HStack_hybrid_forward F_int test_hstack img_a test_params)) = dim_w img_a \<and>
   (\<exists>y. VStack_hybrid_forward F_int test_vstack img_a test_params = Some y) \<and>
   (\<exists>y. HStack_hybrid_forward F_int test_hstack img_a test_params = Some y)"
proof -
  obtain u where u: "VStack_hybrid_forward F_int test_vstack img_a test_params = Some u"
    using test_vstack_forward(1) by blast
  obtain v where v: "HStack_hybrid_forward F_int test_hstack img_a test_params = Some v"
    using test_stacks_return(3) by blast
  have okv: "conv_args_ok test_vstack (dim_c img_a) (weight test_params) (bias test_params)"
    and okh: "conv_args_ok test_hstack (dim_c img_a) (weight test_params) (bias test_params)"
    by (simp_all add: dims_imgs test_params_ok test_params_sel(1))
  have pos: "0 < dim_h img_a" "0 < dim_w img_a" by (simp_all add: dims_imgs)
  note t1 = forward_crops_to_input_size[where F = F_int and L = test_vstack and x = img_a
      and p = test_params and out = u and ch = 1 and ks = "(1, 3)" and kl = 3 and g = 1
      and ub = False and inc = 0 and kt = "''B''", folded test_vstack_def test_hstack_def]
  note t2 = forward_crops_to_input_size[where F = F_int and L = test_hstack and x = img_a
      and p = test_params and out = v]
  have a: "dim_h u = dim_h img_a \<and> dim_w u = dim_w img_a"
    using t1[THEN conjunct1, THEN mp, OF u] .
  have b: "dim_h v = dim_h img_a \<and> dim_w v = dim_w img_a"
    using t2[THEN conjunct2, THEN conjunct1, THEN mp, OF v] .
  have c: "\<exists>y. VStack_hybrid_forward F_int test_vstack img_a test_params = Some y"
    using t1[THEN conjunct2, THEN conjunct2, THEN conjunct1, THEN mp, OF conjI[OF okv conjI[OF pos]]] .
  have d: "\<exists>y. HStack_hybrid_forward F_int test_hstack img_a test_params = Some y"
    using t1[THEN conjunct2, THEN conjunct2, THEN conjunct2, THEN mp, OF conjI[OF okh conjI[OF pos]]] .
  show ?thesis using a b c d okv okh pos u v by simp
qed

section \<open>C3: the data flow of the gated layer\<close>

text \<open>
  C3. The forward pass of a gated layer computes the data flow the specification
  describes (\<open>GatedLayer_dataflow\<close>): for every layer, input and parameters, both fail or
  both return arrays of one shape with the same elements. So the input channels are split
  into a vertical and a horizontal half, \<open>v\<close> is the vertical stack of the vertical half,
  \<open>h\<close> is the horizontal stack of the horizontal half plus \<^verbatim>\<open>vtoh\<close> of \<open>v\<close>, each stream is
  gated as the sigmoid of its first channel half times the tanh of its second channel half,
  \<^verbatim>\<open>htoh\<close> is applied to the gated horizontal stream, and the result is the gated vertical
  stream concatenated with the horizontal result after its residual connection.
\<close>

theorem GatedLayer_follows_dataflow:
  "rel_option (agree_on everywhere)
     (GatedLayer_hybrid_forward F L x P) (GatedLayer_dataflow F L x P)"
proof (cases "dim_c x mod 2 = 0")
  case False
  then show ?thesis
    by (simp add: GatedLayer_hybrid_forward_def GatedLayer_dataflow_def split_channel_slice)
next
  case True
  have sx: "split x = Some (channel_slice x 0 (dim_c x div 2),
      channel_slice x (dim_c x div 2) (dim_c x div 2))"
    using True by (simp add: split_channel_slice)
  have tail: "rel_option (agree_on everywhere)
      (split v \<bind> (\<lambda>(vps, vpt). split h \<bind> (\<lambda>(hps, hpt).
         gate F vps vpt \<bind> (\<lambda>vo. gate F hps hpt \<bind> (\<lambda>g.
           Conv2D_hybrid_forward F (gl_htoh L) g (htoh_p P) \<bind>
             (\<lambda>hp. residual_connection L hx hp \<bind> concat_nd vo))))))
      (if dim_c v mod 2 = 0 \<and> dim_c h mod 2 = 0 then
         Conv2D_hybrid_forward F (gl_htoh L) (gated_activation F h) (htoh_p P) \<bind>
           (\<lambda>hp. residual_connection L hx hp \<bind> concat_nd (gated_activation F v))
       else None)" for v h hx
  proof (cases "dim_c v mod 2 = 0 \<and> dim_c h mod 2 = 0")
    case False
    then show ?thesis by (auto simp: split_channel_slice)
  next
    case True
    obtain vo where vo: "gate F (channel_slice v 0 (dim_c v div 2))
        (channel_slice v (dim_c v div 2) (dim_c v div 2)) = Some vo"
      and avo: "agree_on everywhere vo (gated_activation F v)"
      using gate_split[OF conjunct1[OF True], of F] by auto
    obtain g where g: "gate F (channel_slice h 0 (dim_c h div 2))
        (channel_slice h (dim_c h div 2) (dim_c h div 2)) = Some g"
      and ag: "agree_on everywhere g (gated_activation F h)"
      using gate_split[OF conjunct2[OF True], of F] by auto
    show ?thesis
      using True gated_tail_agree[OF avo ag, of F "gl_htoh L" "htoh_p P" L hx]
      by (simp add: split_channel_slice vo g)
  qed
  show ?thesis
    unfolding GatedLayer_hybrid_forward_def GatedLayer_dataflow_def sx
    using True
    apply simp
    apply (intro bind_same_rel)
    apply (rule tail)
    done
qed

text \<open>
  The layer \<open>test_gated\<close> on the input \<open>feat_a\<close> of two channels, both 1: the forward pass
  returns, and the data flow yields 4 in the vertical channel and 25 in the horizontal
  channel (with the stand-ins \<open>v + 1\<close> for the sigmoid and \<open>2 * v\<close> for the tanh).
\<close>

theorem GatedLayer_follows_dataflow_witness:
  "GatedLayer_hybrid_forward F_int test_gated feat_a (test_gated_params 1) \<noteq> None \<and>
   (\<exists>out. GatedLayer_dataflow F_int test_gated feat_a (test_gated_params 1) = Some out \<and>
      shape out = (1, 2, 1, 1) \<and> elem out 0 0 0 0 = 4 \<and> elem out 0 1 0 0 = 25) \<and>
   rel_option (agree_on everywhere)
     (GatedLayer_hybrid_forward F_int test_gated feat_a (test_gated_params 1))
     (GatedLayer_dataflow F_int test_gated feat_a (test_gated_params 1))"
  using test_gated_returns(1) dataflow_value
    GatedLayer_follows_dataflow[of F_int test_gated feat_a "test_gated_params 1"]
  by (intro conjI)

section \<open>C4: the residual connection\<close>

text \<open>
  C4, as the specification states it, fails when the residual input has more channels than
  \<^verbatim>\<open>channels\<close>. The layer \<open>test_gated\<close> has \<^verbatim>\<open>channels=1\<close> and the residual connection; for
  a residual input of two channels the code takes its last branch and adds the input as it
  is, and the broadcasting sum has two channels. Nothing is padded, although the channel
  counts differ.
\<close>

theorem residual_larger_input_not_padded:
  "gl_residual test_gated \<and> dim_c feat_a \<noteq> gl_channels test_gated \<and>
   (\<exists>y. residual_connection test_gated feat_a feat_1 = Some y \<and> dim_c y = 2 \<and>
        elem y 0 1 0 0 = elem feat_1 0 0 0 0 + elem feat_a 0 1 0 0) \<and>
   \<not> rel_option (agree_on everywhere)
       (residual_connection test_gated feat_a feat_1)
       (residual_connection_spec test_gated feat_a feat_1)"
  by (simp add: residual_connection_def residual_connection_spec_def test_gated_sel dims_feats
      broadcast_add_def broadcast_op_def zero_pad_channels_def agree_on_def shape_def bidx_def
      bdim_def)

text \<open>
  C4, amended. Without \<^verbatim>\<open>residual\<close> the result is the horizontal stream itself. With
  \<^verbatim>\<open>residual\<close>, a residual input with fewer channels than \<^verbatim>\<open>channels\<close> is padded with
  zero channels up to \<^verbatim>\<open>channels\<close> and then added, and a residual input with exactly
  \<^verbatim>\<open>channels\<close> channels is added unchanged: in these cases the code computes what the
  specification describes, element for element, and fails exactly when that fails.
\<close>

theorem residual_connection_pads_smaller_input:
  assumes "gl_residual L \<longrightarrow> dim_c hx \<le> gl_channels L"
  shows "rel_option (agree_on everywhere)
           (residual_connection L hx p) (residual_connection_spec L hx p)"
proof (cases "gl_residual L")
  case False
  then show ?thesis
    by (simp add: residual_connection_def residual_connection_spec_def agree_on_refl)
next
  case True
  show ?thesis
  proof (cases "dim_c hx < gl_channels L")
    case less: True
    obtain z where z: "concat_nd hx (zeros (dim_n hx, gl_channels L - dim_c hx, dim_h hx, dim_w hx)) = Some z"
      and a: "agree_on everywhere z (zero_pad_channels hx (gl_channels L))"
      using concat_zeros_pad[of hx "gl_channels L"] less by auto
    have "rel_option (agree_on everywhere) (broadcast_op (+) p z)
        (broadcast_op (+) p (zero_pad_channels hx (gl_channels L)))"
      by (rule broadcast_op_agree_everywhere[OF agree_on_refl a])
    then show ?thesis using True less z
      by (simp add: residual_connection_def residual_connection_spec_def broadcast_add_def)
  next
    case False
    then have "dim_c hx = gl_channels L" using assms True by simp
    then show ?thesis using True
      by (simp add: residual_connection_def residual_connection_spec_def option.rel_refl agree_on_refl)
  qed
qed

text \<open>
  The layer \<open>test_gated2\<close> has \<^verbatim>\<open>channels=2\<close>; a residual input of one channel is padded
  and added to a stream of two channels.
\<close>

theorem residual_connection_pads_smaller_input_witness:
  "gl_residual test_gated2 \<and> dim_c feat_1 < gl_channels test_gated2 \<and>
   residual_connection test_gated2 feat_1 feat_a \<noteq> None \<and>
   rel_option (agree_on everywhere)
     (residual_connection test_gated2 feat_1 feat_a)
     (residual_connection_spec test_gated2 feat_1 feat_a)"
proof -
  have h: "gl_residual test_gated2 \<longrightarrow> dim_c feat_1 \<le> gl_channels test_gated2"
    by (simp add: test_gated_sel dims_feats)
  have r: "residual_connection test_gated2 feat_1 feat_a \<noteq> None"
    by (simp add: residual_connection_def test_gated_sel dims_feats concat_nd_def zeros_def
        broadcast_add_def broadcast_op_def bdim_def)
  show ?thesis
    using r residual_connection_pads_smaller_input[OF h, of feat_a]
    by (simp add: test_gated_sel dims_feats)
qed

section \<open>C5: the order of the completion\<close>

text \<open>
  C5. The two nested loops of the completion are one scan of the positions
  \<open>(14, 0), (14, 1), ..., (14, 27), (15, 0), ..., (27, 27)\<close>, the rows 14 to 27 and in
  each row the columns 0 to 27 in row-major order (\<open>row_major 14 14 28\<close>); at each
  position the buffer receives, at channel 0 of that position, the value of the forward
  pass on the current buffer at channel 0 of that position (\<open>completion_step_spec\<close>). A
  failure of the forward pass or an index outside a shape ends both in the same way.
\<close>

theorem completion_is_row_major_scan:
  "completion_loop nt reconst = completion_spec nt reconst"
proof -
  have "[14..<28] = [14..<14 + 14]" by simp
  then have "concat (map (\<lambda>i. map (Pair i) [0..<28]) [14..<28]) = row_major 14 14 28"
    using rows_row_major[of 28 14 14] by simp
  moreover have "(\<lambda>r pos. completion_step nt (fst pos) r (snd pos)) = completion_step_spec nt"
    by (intro ext) (simp add: completion_step_eq)
  ultimately show ?thesis
    unfolding completion_loop_def completion_spec_def for_each_nested by simp
qed

section \<open>C6: the completion depends on the upper half only\<close>

text \<open>
  C6. Take two batches of images with one channel, 28 rows and 28 columns that agree on
  the rows 0 to 13. Whatever the parameters of the network, the completions of the two
  batches both fail or both return, and the returned buffers are equal at every pixel:
  the lower halves that are filled in are the same. With parameters that fit the network
  the completion does return.

  The reason is that the output of the network at \<open>(i, j)\<close> depends only on the input
  pixels before \<open>(i, j)\<close> in row-major order (\<open>net_causal\<close>), and these are pixels of the
  upper half or pixels the loop has already written.
\<close>

theorem completion_depends_on_upper_half_only:
  assumes "shape x = (n, 1, 28, 28)" and "agree_on (rows_above 14) x y"
  shows "rel_option (agree_on everywhere)
           (completion_loop (net F ps) x) (completion_loop (net F ps) y) \<and>
         (net_params_ok ps \<and> F_Activation F ''relu'' \<noteq> None \<longrightarrow>
            completion_loop (net F ps) x \<noteq> None)"
proof
  show "rel_option (agree_on everywhere)
           (completion_loop (net F ps) x) (completion_loop (net F ps) y)"
    by (rule completion_loop_ni[OF net_causal assms])
  show "net_params_ok ps \<and> F_Activation F ''relu'' \<noteq> None \<longrightarrow>
            completion_loop (net F ps) x \<noteq> None"
    using net_completion_returns[of ps F x n] assms(1) by auto
qed

text \<open>
  The batches \<open>mnist_a\<close> and \<open>mnist_b\<close> differ at \<open>(20, 3)\<close>, in the lower half, and the
  completion returns on them with the constant parameters.
\<close>

theorem completion_depends_on_upper_half_only_witness:
  "shape mnist_a = (1, 1, 28, 28) \<and> agree_on (rows_above 14) mnist_a mnist_b \<and>
   elem mnist_a 0 0 20 3 \<noteq> elem mnist_b 0 0 20 3 \<and>
   net_params_ok const_net_params \<and> F_Activation F_int ''relu'' \<noteq> None \<and>
   completion_loop (net F_int const_net_params) mnist_a \<noteq> None \<and>
   rel_option (agree_on everywhere)
     (completion_loop (net F_int const_net_params) mnist_a)
     (completion_loop (net F_int const_net_params) mnist_b)"
proof -
  note t = completion_depends_on_upper_half_only[OF shape_mnist(1) mnist_upper_half,
      of F_int const_net_params]
  have "completion_loop (net F_int const_net_params) mnist_a \<noteq> None"
    using t[THEN conjunct2, THEN mp, OF conjI[OF const_net_params_ok F_int_relu]] .
  then show ?thesis
    using shape_mnist(1) mnist_upper_half mnist_differ const_net_params_ok F_int_relu
      t[THEN conjunct1]
    by (intro conjI)
qed

section \<open>C7: the training loss\<close>

text \<open>
  C7. Whenever the loss of a batch \<open>x\<close> is computed, the network has returned an output
  \<open>y\<close>, the shapes of \<open>y\<close> and \<open>x\<close> broadcast to a shape \<open>(N, C, H, W)\<close>, the loss has \<open>N\<close>
  elements, and the element of image \<open>n\<close> is the sum over the \<open>C\<close> channels, the \<open>H\<close> rows and
  the \<open>W\<close> columns, in this order of the axes and each in increasing order of the index,
  of the squared difference between \<open>y\<close> and \<open>x\<close>, an axis of extent 1 being read at index 0.
  When \<open>y\<close> has the shape of \<open>x\<close> this is, for each image \<open>n\<close> of the batch, the sum over
  every channel, row and column of \<open>x\<close> of the square of the difference between the
  elements of \<open>y\<close> and of \<open>x\<close> at that position of image \<open>n\<close>. For a
  batch with at least one row and one column, and parameters that fit the network for the
  number of channels of \<open>x\<close>, the network returns an output with one channel and the loss
  is computed. The scalars are of any type with a zero, an addition, a subtraction and a
  power: no law of arithmetic is used, so that the statement holds for floating-point
  numbers with the additions in the order written.
\<close>

theorem loss_is_squared_reconstruction_error:
  fixes x :: "'a::{zero,plus,minus,power} ndarray"
  shows "(loss F ps x = Some l \<longrightarrow>
      (\<exists>y N C H W. net F ps x = Some y \<and>
        bdim (dim_n y) (dim_n x) = Some N \<and> bdim (dim_c y) (dim_c x) = Some C \<and>
        bdim (dim_h y) (dim_h x) = Some H \<and> bdim (dim_w y) (dim_w x) = Some W \<and>
        len l = N \<and>
        (\<forall>n. elem1 l n =
           sum_upt (\<lambda>c. sum_upt (\<lambda>i. sum_upt (\<lambda>j.
             (elem y (bidx (dim_n y) n) (bidx (dim_c y) c) (bidx (dim_h y) i) (bidx (dim_w y) j) -
              elem x (bidx (dim_n x) n) (bidx (dim_c x) c) (bidx (dim_h x) i) (bidx (dim_w x) j)) ^ 2)
             W) H) C))) \<and>
    (loss F ps x = Some l \<and> net F ps x = Some y \<and> shape y = shape x \<longrightarrow>
      len l = dim_n x \<and>
      (\<forall>n<dim_n x. elem1 l n =
         sum_upt (\<lambda>c. sum_upt (\<lambda>i. sum_upt (\<lambda>j. (elem y n c i j - elem x n c i j) ^ 2)
           (dim_w x)) (dim_h x)) (dim_c x))) \<and>
    (Sequential_params_ok net_blocks (dim_c x) ps \<and> F_Activation F ''relu'' \<noteq> None \<and>
     0 < dim_h x \<and> 0 < dim_w x \<longrightarrow>
      (\<exists>y l. net F ps x = Some y \<and> shape y = (dim_n x, 1, dim_h x, dim_w x) \<and>
         loss F ps x = Some l))"
proof -
  have c1: "loss F ps x = Some l \<longrightarrow>
      (\<exists>y N C H W. net F ps x = Some y \<and>
        bdim (dim_n y) (dim_n x) = Some N \<and> bdim (dim_c y) (dim_c x) = Some C \<and>
        bdim (dim_h y) (dim_h x) = Some H \<and> bdim (dim_w y) (dim_w x) = Some W \<and>
        len l = N \<and>
        (\<forall>n. elem1 l n =
           sum_upt (\<lambda>c. sum_upt (\<lambda>i. sum_upt (\<lambda>j.
             (elem y (bidx (dim_n y) n) (bidx (dim_c y) c) (bidx (dim_h y) i) (bidx (dim_w y) j) -
              elem x (bidx (dim_n x) n) (bidx (dim_c x) c) (bidx (dim_h x) i) (bidx (dim_w x) j)) ^ 2)
             W) H) C))"
    by (rule impI) (rule loss_broadcast_formula)
  have c2: "loss F ps x = Some l \<and> net F ps x = Some y \<and> shape y = shape x \<longrightarrow>
      len l = dim_n x \<and>
      (\<forall>n<dim_n x. elem1 l n =
         sum_upt (\<lambda>c. sum_upt (\<lambda>i. sum_upt (\<lambda>j. (elem y n c i j - elem x n c i j) ^ 2)
           (dim_w x)) (dim_h x)) (dim_c x))"
    using loss_same_shape_formula[of F ps x l y] by simp
  have c3: "Sequential_params_ok net_blocks (dim_c x) ps \<and> F_Activation F ''relu'' \<noteq> None \<and>
     0 < dim_h x \<and> 0 < dim_w x \<longrightarrow>
      (\<exists>y l. net F ps x = Some y \<and> shape y = (dim_n x, 1, dim_h x, dim_w x) \<and>
         loss F ps x = Some l)"
    using loss_returns[of x ps F] by simp
  show ?thesis
    by (rule conjI[OF c1 conjI[OF c2 c3]])
qed

text \<open>
  The loss of the batch \<open>batch_a\<close>, two images of one channel and four pixels, with the
  constant parameters: each element is a sum of four squares. The loss of the batch
  \<open>batch_b\<close>, two images of two channels, with parameters whose first convolution reads two
  channels: the output has one channel and is subtracted from both channels of the batch,
  so that each element is a sum of eight squares.
\<close>

theorem loss_is_squared_reconstruction_error_witness:
  "Sequential_params_ok net_blocks (dim_c batch_a) const_net_params \<and>
   Sequential_params_ok net_blocks (dim_c batch_b) const_net_params2 \<and>
   F_Activation F_int ''relu'' \<noteq> None \<and>
   (\<exists>y l. net F_int const_net_params batch_a = Some y \<and> shape y = shape batch_a \<and>
      loss F_int const_net_params batch_a = Some l \<and> len l = 2 \<and>
      elem1 l 0 = (elem y 0 0 0 0 - 0) ^ 2 + (elem y 0 0 0 1 - 5) ^ 2 +
                  ((elem y 0 0 1 0 - 3) ^ 2 + (elem y 0 0 1 1 - 8) ^ 2) \<and>
      elem1 l 1 = (elem y 1 0 0 0 - 1) ^ 2 + (elem y 1 0 0 1 - 6) ^ 2 +
                  ((elem y 1 0 1 0 - 4) ^ 2 + (elem y 1 0 1 1 - 9) ^ 2)) \<and>
   (\<exists>y l. net F_int const_net_params2 batch_b = Some y \<and> shape y = (2, 1, 2, 2) \<and>
      loss F_int const_net_params2 batch_b = Some l \<and> len l = 2 \<and>
      (\<forall>n. elem1 l n =
         sum_upt (\<lambda>c. sum_upt (\<lambda>i. sum_upt (\<lambda>j.
           (elem y n 0 i j - elem batch_b n c i j) ^ 2) 2) 2) 2))"
proof -
  have oka: "Sequential_params_ok net_blocks (dim_c batch_a) const_net_params"
    using const_net_params_ok by (simp add: net_params_ok_def dims_batches)
  have okb: "Sequential_params_ok net_blocks (dim_c batch_b) const_net_params2"
    using const_net_params2_ok by (simp add: dims_batches)
  have pos: "0 < dim_h batch_a" "0 < dim_w batch_a" "0 < dim_h batch_b" "0 < dim_w batch_b"
    by (simp_all add: dims_batches)
  note t = loss_is_squared_reconstruction_error
  obtain y l where y: "net F_int const_net_params batch_a = Some y"
    and s: "shape y = (dim_n batch_a, 1, dim_h batch_a, dim_w batch_a)"
    and l: "loss F_int const_net_params batch_a = Some l"
    using t[of F_int const_net_params batch_a undefined undefined,
        THEN conjunct2, THEN conjunct2, THEN mp, OF conjI[OF oka conjI[OF F_int_relu conjI[OF pos(1,2)]]]]
    by auto
  have sa: "shape y = shape batch_a"
    using s by (simp add: shape_def dims_batches)
  have f: "len l = dim_n batch_a \<and>
      (\<forall>n<dim_n batch_a. elem1 l n =
         sum_upt (\<lambda>c. sum_upt (\<lambda>i. sum_upt (\<lambda>j. (elem y n c i j - elem batch_a n c i j) ^ 2)
           (dim_w batch_a)) (dim_h batch_a)) (dim_c batch_a))"
    using t[of F_int const_net_params batch_a l y, THEN conjunct2, THEN conjunct1, THEN mp,
        OF conjI[OF l conjI[OF y sa]]] .
  have a: "\<exists>y l. net F_int const_net_params batch_a = Some y \<and> shape y = shape batch_a \<and>
      loss F_int const_net_params batch_a = Some l \<and> len l = 2 \<and>
      elem1 l 0 = (elem y 0 0 0 0 - 0) ^ 2 + (elem y 0 0 0 1 - 5) ^ 2 +
                  ((elem y 0 0 1 0 - 3) ^ 2 + (elem y 0 0 1 1 - 8) ^ 2) \<and>
      elem1 l 1 = (elem y 1 0 0 0 - 1) ^ 2 + (elem y 1 0 0 1 - 6) ^ 2 +
                  ((elem y 1 0 1 0 - 4) ^ 2 + (elem y 1 0 1 1 - 9) ^ 2)"
    using y sa l f
    by (intro exI[of _ y] exI[of _ l]) (simp add: dims_batches sum_upt_numeral batch_a_def)
  obtain y' l' where y': "net F_int const_net_params2 batch_b = Some y'"
    and s': "shape y' = (dim_n batch_b, 1, dim_h batch_b, dim_w batch_b)"
    and l': "loss F_int const_net_params2 batch_b = Some l'"
    using t[of F_int const_net_params2 batch_b undefined undefined,
        THEN conjunct2, THEN conjunct2, THEN mp, OF conjI[OF okb conjI[OF F_int_relu conjI[OF pos(3,4)]]]]
    by auto
  have d': "dim_n y' = 2" "dim_c y' = Suc 0" "dim_h y' = 2" "dim_w y' = 2"
    using s' by (simp_all add: shape_tuple dims_batches)
  have b: "\<exists>y l. net F_int const_net_params2 batch_b = Some y \<and> shape y = (2, 1, 2, 2) \<and>
      loss F_int const_net_params2 batch_b = Some l \<and> len l = 2 \<and>
      (\<forall>n. elem1 l n =
         sum_upt (\<lambda>c. sum_upt (\<lambda>i. sum_upt (\<lambda>j.
           (elem y n 0 i j - elem batch_b n c i j) ^ 2) 2) 2) 2)"
  proof -
    obtain y2 N C H W where y2: "net F_int const_net_params2 batch_b = Some y2"
      and bd: "bdim (dim_n y2) (dim_n batch_b) = Some N" "bdim (dim_c y2) (dim_c batch_b) = Some C"
        "bdim (dim_h y2) (dim_h batch_b) = Some H" "bdim (dim_w y2) (dim_w batch_b) = Some W"
      and ln: "len l' = N"
      and el: "\<And>n. elem1 l' n =
           sum_upt (\<lambda>c. sum_upt (\<lambda>i. sum_upt (\<lambda>j.
             (elem y2 (bidx (dim_n y2) n) (bidx (dim_c y2) c) (bidx (dim_h y2) i) (bidx (dim_w y2) j) -
              elem batch_b (bidx (dim_n batch_b) n) (bidx (dim_c batch_b) c)
                (bidx (dim_h batch_b) i) (bidx (dim_w batch_b) j)) ^ 2)
             W) H) C"
      using t[of F_int const_net_params2 batch_b l', THEN conjunct1, THEN mp, OF l'] by auto
    have e: "y2 = y'" using y2 y' by simp
    have n: "N = 2" "C = 2" "H = 2" "W = 2"
      using bd by (simp_all add: e d' dims_batches bdim_def)
    have "elem1 l' n =
         sum_upt (\<lambda>c. sum_upt (\<lambda>i. sum_upt (\<lambda>j.
           (elem y' n 0 i j - elem batch_b n c i j) ^ 2) 2) 2) 2" for n
      unfolding el by (simp add: e d' n dims_batches bidx_def)
    then show ?thesis
      using y' l' ln s' by (intro exI[of _ y'] exI[of _ l']) (simp add: n dims_batches)
  qed
  show ?thesis
    using oka okb F_int_relu a b by (intro conjI)
qed

section \<open>C8: the completion changes the lower half of channel 0 only\<close>

text \<open>
  C8. When the image completion returns, the batch \<open>x\<close> it kept is the batch the buffer
  was copied from, the buffer has the shape of \<open>x\<close>, and it equals \<open>x\<close> at every element
  outside channel 0 of the rows 14 to 27 and columns 0 to 27: in particular on the rows 0
  to 13, pixel for pixel.
\<close>

theorem completion_changes_lower_half_only:
  assumes "image_completion nt test_loader = Some (x, reconst)"
  shows "select_batch test_loader = Some x \<and> completion_loop nt x = Some reconst \<and>
    shape reconst = shape x \<and>
    (\<forall>n c i j. c \<noteq> 0 \<or> i < 14 \<or> 28 \<le> i \<or> 28 \<le> j \<longrightarrow> elem reconst n c i j = elem x n c i j)"
proof -
  have s: "select_batch test_loader = Some x" and l: "completion_loop nt x = Some reconst"
    using assms by (auto simp: image_completion_def split: bind_splits)
  show ?thesis
    using s l rows_loop_frame[OF l[unfolded completion_loop_def]] by auto
qed

text \<open>
  With the constant parameters and the test batches \<open>mnist_b\<close>, \<open>mnist_a\<close> the completion
  keeps the second batch and returns.
\<close>

theorem completion_changes_lower_half_only_witness:
  "\<exists>r. image_completion (net F_int const_net_params) [mnist_b, mnist_a] = Some (mnist_a, r) \<and>
     select_batch [mnist_b, mnist_a] = Some mnist_a \<and>
     completion_loop (net F_int const_net_params) mnist_a = Some r \<and>
     shape r = shape mnist_a \<and>
     (\<forall>n c i j. c \<noteq> 0 \<or> i < 14 \<or> 28 \<le> i \<or> 28 \<le> j \<longrightarrow> elem r n c i j = elem mnist_a n c i j)"
proof -
  obtain r where r: "completion_loop (net F_int const_net_params) mnist_a = Some r"
    using net_completion_returns[OF const_net_params_ok F_int_relu shape_mnist(1)] by auto
  then have i: "image_completion (net F_int const_net_params) [mnist_b, mnist_a] = Some (mnist_a, r)"
    by (simp add: image_completion_def)
  show ?thesis
    using i completion_changes_lower_half_only[OF i] by (intro exI[of _ r] conjI) simp_all
qed

section \<open>C9: the shape of the output of a gated layer\<close>

text \<open>
  C9, as the specification states it, fails for a layer with the residual connection whose
  input halves have more channels than \<^verbatim>\<open>channels\<close>. The layer \<open>test_gated\<close> has
  \<^verbatim>\<open>channels=1\<close>; on an input of four channels the horizontal stream of one channel is
  broadcast against the residual input of two channels, and the output has three
  channels, not two.
\<close>

theorem GatedLayer_three_output_channels:
  "dim_c feat_4 = 2 * 2 \<and> gl_channels test_gated = 1 \<and>
   (\<exists>out. GatedLayer_hybrid_forward F_int test_gated feat_4 (test_gated_params 2) = Some out \<and>
      dim_c out = 3 \<and> shape out \<noteq> (dim_n feat_4, 2 * gl_channels test_gated, dim_h feat_4, dim_w feat_4))"
proof -
  have "\<exists>out. GatedLayer_hybrid_forward F_int test_gated feat_4 (test_gated_params 2) = Some out"
    unfolding test_gated_def
    by (rule GatedLayer_returns)
       (use test_gated_params_ok(1)[of 2] in \<open>simp_all add: dims_feats test_gated_def\<close>)
  then obtain out where o: "GatedLayer_hybrid_forward F_int test_gated feat_4 (test_gated_params 2) = Some out"
    by blast
  have "dim_c out = 3" using GatedLayer_shape(4)[OF o[unfolded test_gated_def]] by (simp add: dims_feats)
  then have "dim_c out = 3 \<and> shape out \<noteq> (dim_n feat_4, 2 * gl_channels test_gated, dim_h feat_4, dim_w feat_4)"
    by (simp add: shape_tuple test_gated_sel)
  then show ?thesis using o by (simp add: dims_feats test_gated_sel)
qed

text \<open>
  C9, amended. Take a gated layer without the residual connection, or with it and input
  halves of at most \<^verbatim>\<open>channels\<close> channels. Whenever its forward pass returns, whatever the
  strides and the dilation, the output has the batch size, the height and the width of the
  input and \<^verbatim>\<open>2*channels\<close> channels. With strides and dilation \<open>(1, 1)\<close>, an even
  number of input channels, at least one row and one column, and parameters that fit, the
  forward pass does return.
\<close>

theorem GatedLayer_output_shape:
  "(GatedLayer_hybrid_forward F (GatedLayer ch ks st dl g ub inc kt res) x P = Some out \<and>
    (res \<longrightarrow> dim_c x div 2 \<le> ch) \<longrightarrow>
      shape out = (dim_n x, 2 * ch, dim_h x, dim_w x)) \<and>
   (gated_params_ok (GatedLayer ch ks (1, 1) (1, 1) g ub inc kt res) (dim_c x div 2) P \<and>
    dim_c x mod 2 = 0 \<and> 0 < dim_h x \<and> 0 < dim_w x \<and> (res \<longrightarrow> dim_c x div 2 \<le> ch) \<longrightarrow>
      (\<exists>y. GatedLayer_hybrid_forward F (GatedLayer ch ks (1, 1) (1, 1) g ub inc kt res) x P = Some y))"
proof (intro conjI impI)
  assume a: "GatedLayer_hybrid_forward F (GatedLayer ch ks st dl g ub inc kt res) x P = Some out \<and>
    (res \<longrightarrow> dim_c x div 2 \<le> ch)"
  then have o: "GatedLayer_hybrid_forward F (GatedLayer ch ks st dl g ub inc kt res) x P = Some out"
    and r: "res \<longrightarrow> dim_c x div 2 \<le> ch" by simp_all
  have "dim_c out = ch + (if res then max ch (dim_c x div 2) else ch)"
    using GatedLayer_shape(4)[OF o] .
  then have "dim_c out = 2 * ch" using r by (auto simp: max_def)
  then show "shape out = (dim_n x, 2 * ch, dim_h x, dim_w x)"
    using GatedLayer_shape(1-3)[OF o] by (simp add: shape_tuple)
next
  assume a: "gated_params_ok (GatedLayer ch ks (1, 1) (1, 1) g ub inc kt res) (dim_c x div 2) P \<and>
    dim_c x mod 2 = 0 \<and> 0 < dim_h x \<and> 0 < dim_w x \<and> (res \<longrightarrow> dim_c x div 2 \<le> ch)"
  show "\<exists>y. GatedLayer_hybrid_forward F (GatedLayer ch ks (1, 1) (1, 1) g ub inc kt res) x P = Some y"
    by (rule GatedLayer_returns) (use a in auto)
qed

text \<open>The layer \<open>test_gated\<close> on the two-channel input \<open>feat_a\<close>.\<close>

theorem GatedLayer_output_shape_witness:
  "GatedLayer_hybrid_forward F_int test_gated feat_a (test_gated_params 1) \<noteq> None \<and>
   gl_residual test_gated \<and> dim_c feat_a div 2 \<le> 1 \<and>
   gated_params_ok test_gated (dim_c feat_a div 2) (test_gated_params 1) \<and>
   dim_c feat_a mod 2 = 0 \<and> 0 < dim_h feat_a \<and> 0 < dim_w feat_a \<and>
   shape (the (GatedLayer_hybrid_forward F_int test_gated feat_a (test_gated_params 1))) =
     (dim_n feat_a, 2 * 1, dim_h feat_a, dim_w feat_a)"
proof -
  note t = GatedLayer_output_shape[where F = F_int and ch = 1 and ks = "(1, 1)" and st = "(1, 1)"
      and dl = "(1, 1)" and g = 1 and ub = False and inc = 0 and kt = "''B''" and res = True
      and x = feat_a and P = "test_gated_params 1", folded test_gated_def]
  have ok: "gated_params_ok test_gated (dim_c feat_a div 2) (test_gated_params 1)"
    using test_gated_params_ok(1)[of 1] by (simp add: dims_feats)
  have h: "gated_params_ok test_gated (dim_c feat_a div 2) (test_gated_params 1) \<and>
    dim_c feat_a mod 2 = 0 \<and> 0 < dim_h feat_a \<and> 0 < dim_w feat_a \<and> (True \<longrightarrow> dim_c feat_a div 2 \<le> 1)"
    using ok by (simp add: dims_feats)
  obtain y where y: "GatedLayer_hybrid_forward F_int test_gated feat_a (test_gated_params 1) = Some y"
    using t[where out = undefined, THEN conjunct2, THEN mp, OF h] by blast
  have "shape y = (dim_n feat_a, 2 * 1, dim_h feat_a, dim_w feat_a)"
    using t[where out = y, THEN conjunct1, THEN mp] y h by blast
  then show ?thesis using y h by (simp add: test_gated_sel)
qed

section \<open>C10: the vertical stream does not depend on the horizontal input\<close>

text \<open>
  C10. Take two inputs of the same shape that agree on the first half of their channels,
  the vertical input half. For every gated layer and all parameters the forward passes
  both fail or both return, and the outputs agree on the first \<^verbatim>\<open>channels\<close> channels, the
  vertical output stream: changing the horizontal input half leaves it unchanged.
\<close>

theorem vertical_stream_ignores_horizontal_input:
  assumes "agree_on (first_channels (dim_c x div 2)) x y"
  shows "rel_option (agree_on (first_channels ch))
           (GatedLayer_hybrid_forward F (GatedLayer ch ks st dl g ub inc kt res) x P)
           (GatedLayer_hybrid_forward F (GatedLayer ch ks st dl g ub inc kt res) y P)"
proof -
  define L where "L = GatedLayer ch ks st dl g ub inc kt res"
  have nw: "rel_option (agree_on nowhere)
      (GatedLayer_hybrid_forward F L x P) (GatedLayer_hybrid_forward F L y P)"
    by (rule GatedLayer_nowhere[OF agree_on_nowhereI[OF assms]])
  show ?thesis
    unfolding L_def[symmetric]
  proof (rule rel_option_weaken[OF nw])
    fix out out'
    assume o: "GatedLayer_hybrid_forward F L x P = Some out"
      and o': "GatedLayer_hybrid_forward F L y P = Some out'"
      and "agree_on nowhere out out'"
    then have so: "shape out = shape out'" by (simp add: agree_on_nowhere)
    from o obtain vx hx vs vps vpt vo ho where
      e: "split x = Some (vx, hx)"
      "VStack_hybrid_forward F (gl_vstack L) vx (vstack_p P) = Some vs"
      "split vs = Some (vps, vpt)"
      "gate F vps vpt = Some vo"
      "concat_nd vo ho = Some out"
      by (rule GatedLayer_hybrid_forwardE)
    from o' obtain vy hy vs' vps' vpt' vo' ho' where
      e': "split y = Some (vy, hy)"
      "VStack_hybrid_forward F (gl_vstack L) vy (vstack_p P) = Some vs'"
      "split vs' = Some (vps', vpt')"
      "gate F vps' vpt' = Some vo'"
      "concat_nd vo' ho' = Some out'"
      by (rule GatedLayer_hybrid_forwardE)
    have "agree_on (first_channels (dim_c x div 2)) vx vy"
      using rel_option_SomeD[OF split_agree[OF assms] e(1) e'(1)] by simp
    then have vx: "agree_on everywhere vx vy"
      by (rule agree_on_mono) (simp add: split_shape(2)[OF e(1)] first_channels_def)
    have "agree_on (window_in (gl_vstack L) everywhere) vs vs'"
      using rel_option_SomeD[OF VStack_hybrid_forward_agree[OF vx] e(2) e'(2)] .
    then have vs: "agree_on everywhere vs vs'"
      by (rule agree_on_mono) (rule window_in_everywhere)
    have "agree_on everywhere vps vps' \<and> agree_on (\<lambda>c. everywhere (c + dim_c vs div 2)) vpt vpt'"
      using rel_option_SomeD[OF split_agree[OF vs] e(3) e'(3)] by simp
    then have vp: "agree_on everywhere vps vps'" "agree_on everywhere vpt vpt'"
      by (auto elim: agree_on_mono simp: everywhere_def)
    have "shape vps = shape vpt" using split_shape[OF e(3)] by (simp add: shape_def)
    then have vo: "agree_on everywhere vo vo'"
      using rel_option_SomeD[OF gate_agree[OF vp] e(4) e'(4)] by simp
    have "dim_c vs = ch * 2"
      using VStack_hybrid_forward_shape(2)[OF e(2)] by (simp add: L_def GatedLayer_sel VStack_sel)
    then have "dim_c vps = ch" using split_shape(2)[OF e(3)] by simp
    moreover have "shape vps = shape vpt" using split_shape[OF e(3)] by (simp add: shape_def)
    ultimately have cvo: "dim_c vo = ch" using gate_shape[OF e(4)] by (simp add: shape_def)
    have cvo': "dim_c vo' = ch" using cvo agree_on_dims[OF vo] by simp
    have dvo: "dim_n vo = dim_n out" "dim_h vo = dim_h out" "dim_w vo = dim_w out"
      using concat_shape(1,3,4)[OF e(5)] by simp_all
    show "agree_on (first_channels ch) out out'"
      unfolding agree_on_def
    proof (intro conjI allI impI)
      show "shape out = shape out'" by (rule so)
    next
      fix n c i j
      assume a: "in_range out n c i j \<and> first_channels ch c i j"
      then have c: "c < ch" and r: "n < dim_n vo" "i < dim_h vo" "j < dim_w vo"
        by (simp_all add: first_channels_def in_range_def dvo)
      have "elem out n c i j = elem vo n c i j"
        using concat_elem_first[OF e(5)] c cvo by simp
      also have "\<dots> = elem vo' n c i j"
        using agree_on_elem[OF vo r(1) _ r(2,3)] c cvo by (simp add: everywhere_def)
      also have "\<dots> = elem out' n c i j"
        using concat_elem_first[OF e'(5)] c cvo' by simp
      finally show "elem out n c i j = elem out' n c i j" .
    qed
  qed
qed

text \<open>
  The inputs \<open>feat_a\<close> and \<open>feat_b\<close> have two channels and differ in the second one; the
  layer \<open>test_gated\<close> returns on both.
\<close>

theorem vertical_stream_ignores_horizontal_input_witness:
  "agree_on (first_channels (dim_c feat_a div 2)) feat_a feat_b \<and>
   elem feat_a 0 1 0 0 \<noteq> elem feat_b 0 1 0 0 \<and>
   GatedLayer_hybrid_forward F_int test_gated feat_a (test_gated_params 1) \<noteq> None \<and>
   GatedLayer_hybrid_forward F_int test_gated feat_b (test_gated_params 1) \<noteq> None \<and>
   rel_option (agree_on (first_channels 1))
     (GatedLayer_hybrid_forward F_int test_gated feat_a (test_gated_params 1))
     (GatedLayer_hybrid_forward F_int test_gated feat_b (test_gated_params 1))"
  using feats_first_channel feats_differ test_gated_returns
    vertical_stream_ignores_horizontal_input[OF feats_first_channel, of 1 F_int "(1, 1)" "(1, 1)"
      "(1, 1)" 1 False 0 "''B''" True "test_gated_params 1", folded test_gated_def]
  by (intro conjI)

end
